theory Spec2Isabelle
  imports Main
begin

section \<open>The notes application (optimized-notes.js): data model\<close>

text \<open>
  The class \<open>NotesApp\<close> keeps a reference to a container element of the page, a
  debounce timer handle and a debounce delay. Everything else it touches belongs to
  the browser: the DOM below the container, \<open>localStorage\<close>, the timer queue, the
  clock, \<open>alert\<close> and the console. The embedding puts the fields of the class and
  the part of the browser the class uses into one record, and every method becomes a
  function on that record. Each call into the browser is written to a trace together
  with the time of the call, so that "how often" and "when" are properties of the
  resulting state.
\<close>

subsection \<open>The DOM below the container\<close>

text \<open>
  An element carries its \<open>tagName\<close> (upper case, as the DOM reports it for HTML
  elements), the tokens of its class attribute, its other attributes in the order
  they were set, and its child nodes.
\<close>

datatype node =
    Element (tagName: string) (classList: "string list")
            (attributes: "(string \<times> string) list") (childNodes: "node list")
  | Text string

text \<open>
  An element of the subtree is named by the path of child indices leading to it from
  the container; the empty path is the container itself.
\<close>

type_synonym path = "nat list"

fun node_at :: "path \<Rightarrow> node list \<Rightarrow> node option" where
  "node_at [] ns = None"
| "node_at [i] ns = (if i < length ns then Some (ns ! i) else None)"
| "node_at (i # p) ns =
     (if i < length ns
      then (case ns ! i of Element t c a kids \<Rightarrow> node_at p kids | Text s \<Rightarrow> None)
      else None)"

text \<open>\<open>Element.remove()\<close> for the node at a non-empty path: it leaves its parent's
  child list, everything else stays. A path that names no node removes nothing.\<close>

fun remove_at :: "path \<Rightarrow> node list \<Rightarrow> node list" where
  "remove_at [] ns = ns"
| "remove_at [i] ns = take i ns @ drop (Suc i) ns"
| "remove_at (i # p) ns =
     (if i < length ns
      then (case ns ! i of
              Element t c a kids \<Rightarrow> ns[i := Element t c a (remove_at p kids)]
            | Text s \<Rightarrow> ns)
      else ns)"

text \<open>
  A reference to an element, as \<open>deleteNote\<close> receives it: an element of the
  container's subtree, or the parent element of the container (the one element
  outside the subtree that \<open>target.parentElement\<close> can yield for a target inside).
\<close>

datatype elem_ref = Within path | ContainerParent

subsection \<open>Errors, callbacks, effects\<close>

text \<open>A thrown JavaScript error; the code only ever looks at its \<open>name\<close>.\<close>

datatype js_error = JsError (error_name: string)

text \<open>The two closures the code hands to \<open>setTimeout\<close>: the deferred save of
  \<open>updateStorage\<close> (lines 65-75) and the deferred \<open>updateStorage\<close> call of the
  paste listener (lines 140-142).\<close>

datatype callback = SaveCallback | PasteCallback

datatype effect =
    SetItem string string
  | GetItem string
  | RemoveItem string
  | ConsoleError string
  | ConsoleWarn string
  | Alert string
  | SetTimeout nat callback nat
  | ClearTimeout nat
  | Focus path
  | PreventDefault
  | SetInnerHTML string

subsection \<open>The persistence medium\<close>

text \<open>
  \<open>localStorage\<close>: the stored items, and for each operation whether it throws
  (and which error) instead of doing its work. A throwing \<open>setItem\<close> or
  \<open>removeItem\<close> leaves the items as they were.
\<close>

record medium =
  items :: "string \<rightharpoonup> string"
  set_error :: "string \<Rightarrow> string \<Rightarrow> js_error option"
  get_error :: "string \<Rightarrow> js_error option"
  remove_error :: "string \<Rightarrow> js_error option"

subsection \<open>The state\<close>

type_synonym timer = "nat \<times> nat \<times> callback"
  \<comment> \<open>handle, time at which it becomes due, callback\<close>

record world =
  \<comment> \<open>fields of \<open>NotesApp\<close>\<close>
  notesContainer :: "node list"      \<comment> \<open>child nodes of \<open>this.notesContainer\<close>\<close>
  debounceTimer :: "nat option"      \<comment> \<open>\<open>None\<close> is \<open>null\<close>\<close>
  debounceDelay :: nat
  \<comment> \<open>the page\<close>
  containerTag :: string
  containerClasses :: "string list"
  containerInDocument :: bool
  listening :: bool                  \<comment> \<open>the listeners of \<open>attachEventListeners\<close> are attached\<close>
  \<comment> \<open>the browser\<close>
  clock :: nat                       \<comment> \<open>milliseconds; \<open>Date.now()\<close> and the timer clock\<close>
  timers :: "timer list"             \<comment> \<open>pending timeouts, in the order they were set\<close>
  lastTimerId :: nat                 \<comment> \<open>the handle \<open>setTimeout\<close> returned last\<close>
  localStorage :: medium
  serializeHTML :: "node list \<Rightarrow> string"  \<comment> \<open>the \<open>innerHTML\<close> getter\<close>
  parseHTML :: "string \<Rightarrow> node list"      \<comment> \<open>the \<open>innerHTML\<close> setter\<close>
  trace :: "(nat \<times> effect) list"    \<comment> \<open>calls into the browser, oldest first, with their time\<close>

section \<open>Browser primitives\<close>

definition emit :: "effect \<Rightarrow> world \<Rightarrow> world" where
  "emit e w = w\<lparr>trace := trace w @ [(clock w, e)]\<rparr>"

definition localStorage_setItem :: "string \<Rightarrow> string \<Rightarrow> world \<Rightarrow> js_error option \<times> world" where
  "localStorage_setItem k v w =
     (let w1 = emit (SetItem k v) w in
      case set_error (localStorage w1) k v of
        Some e \<Rightarrow> (Some e, w1)
      | None \<Rightarrow> (None, w1\<lparr>localStorage := (localStorage w1)\<lparr>items := (items (localStorage w1))(k \<mapsto> v)\<rparr>\<rparr>))"

definition localStorage_removeItem :: "string \<Rightarrow> world \<Rightarrow> js_error option \<times> world" where
  "localStorage_removeItem k w =
     (let w1 = emit (RemoveItem k) w in
      case remove_error (localStorage w1) k of
        Some e \<Rightarrow> (Some e, w1)
      | None \<Rightarrow> (None, w1\<lparr>localStorage := (localStorage w1)\<lparr>items := (items (localStorage w1))(k := None)\<rparr>\<rparr>))"

text \<open>\<open>getItem\<close> returns the stored string, or \<open>null\<close> (here \<open>None\<close>) for an unset key.\<close>

definition localStorage_getItem :: "string \<Rightarrow> world \<Rightarrow> (js_error + string option) \<times> world" where
  "localStorage_getItem k w =
     (let w1 = emit (GetItem k) w in
      case get_error (localStorage w1) k of
        Some e \<Rightarrow> (Inl e, w1)
      | None \<Rightarrow> (Inr (items (localStorage w1) k), w1))"

text \<open>\<open>setTimeout\<close> returns a fresh handle, an integer greater than zero, and
  queues the callback to become due \<open>delay\<close> milliseconds from now;
  \<open>clearTimeout\<close> drops the pending timeout with that handle, if there is one.\<close>

definition setTimeout :: "callback \<Rightarrow> nat \<Rightarrow> world \<Rightarrow> nat \<times> world" where
  "setTimeout cb delay w =
     (let i = Suc (lastTimerId w) in
      (i, (emit (SetTimeout i cb delay) w)
            \<lparr>timers := timers w @ [(i, clock w + delay, cb)], lastTimerId := i\<rparr>))"

definition clearTimeout :: "nat \<Rightarrow> world \<Rightarrow> world" where
  "clearTimeout i w =
     (emit (ClearTimeout i) w)\<lparr>timers := filter (\<lambda>t. fst t \<noteq> i) (timers w)\<rparr>"

text \<open>Decimal rendering of a number, as \<open>setAttribute\<close> does when it is handed the
  number \<open>Date.now()\<close>.\<close>

fun number_to_string :: "nat \<Rightarrow> string" where
  "number_to_string n =
     (if n < 10 then [''0123456789'' ! n]
      else number_to_string (n div 10) @ [''0123456789'' ! (n mod 10)])"

declare number_to_string.simps [simp del]

section \<open>The methods of \<open>NotesApp\<close>\<close>

text \<open>\<open>isLocalStorageAvailable\<close> (lines 32-41): a throwaway write and remove of the
  key \<open>test\<close>; any throw is caught and reported as \<open>false\<close>.\<close>

definition isLocalStorageAvailable :: "world \<Rightarrow> bool \<times> world" where
  "isLocalStorageAvailable w =
     (case localStorage_setItem ''test'' ''test'' w of
        (Some e, w1) \<Rightarrow> (False, w1)
      | (None, w1) \<Rightarrow>
          (case localStorage_removeItem ''test'' w1 of
             (Some e, w2) \<Rightarrow> (False, w2)
           | (None, w2) \<Rightarrow> (True, w2)))"

text \<open>\<open>loadNotes\<close> (lines 44-53). The condition \<open>if (savedNotes)\<close> is JavaScript
  truthiness: \<open>null\<close> and the empty string both fail it.\<close>

definition loadNotes :: "world \<Rightarrow> world" where
  "loadNotes w =
     (case localStorage_getItem ''notes'' w of
        (Inl e, w1) \<Rightarrow> emit (ConsoleError ''Error loading notes:'') w1
      | (Inr None, w1) \<Rightarrow> w1
      | (Inr (Some savedNotes), w1) \<Rightarrow>
          (if savedNotes \<noteq> []
           then (emit (SetInnerHTML savedNotes) w1)\<lparr>notesContainer := parseHTML w1 savedNotes\<rparr>
           else w1))"

text \<open>\<open>updateStorage\<close> (lines 56-76). \<open>if (this.debounceTimer)\<close> is truthiness
  again: \<open>null\<close> and the handle \<open>0\<close> fail it.\<close>

definition updateStorage :: "world \<Rightarrow> world" where
  "updateStorage w =
     (case isLocalStorageAvailable w of
        (False, w1) \<Rightarrow> w1
      | (True, w1) \<Rightarrow>
          (let w2 = (case debounceTimer w1 of
                       None \<Rightarrow> w1
                     | Some i \<Rightarrow> if i \<noteq> 0 then clearTimeout i w1 else w1)
           in case setTimeout SaveCallback (debounceDelay w2) w2 of
                (i, w3) \<Rightarrow> w3\<lparr>debounceTimer := Some i\<rparr>))"

text \<open>The deferred save (lines 65-75): the snapshot is read from the container when
  the callback runs.\<close>

definition saveCallback :: "world \<Rightarrow> world" where
  "saveCallback w =
     (case localStorage_setItem ''notes'' (serializeHTML w (notesContainer w)) w of
        (None, w1) \<Rightarrow> w1
      | (Some error, w1) \<Rightarrow>
          (let w2 = emit (ConsoleError ''Error saving notes:'') w1 in
           if error_name error = ''QuotaExceededError''
           then emit (Alert ''Storage quota exceeded. Please delete some notes.'') w2
           else w2))"

text \<open>\<open>createNote\<close> (lines 79-107).\<close>

definition deleteImg :: node where
  "deleteImg = Element ''IMG'' [''delete-btn'']
                 [(''src'', ''images/delete.png''), (''alt'', ''Delete note'')] []"

definition inputBox :: "nat \<Rightarrow> node" where
  "inputBox now = Element ''P'' [''input-box'']
                    [(''contenteditable'', ''true''), (''data-note-id'', number_to_string now)]
                    [deleteImg]"

definition createNote :: "world \<Rightarrow> world" where
  "createNote w =
     (let fragment = [inputBox (clock w)];
          w1 = w\<lparr>notesContainer := notesContainer w @ fragment\<rparr>;
          w2 = emit (Focus [length (notesContainer w)]) w1
      in updateStorage w2)"

text \<open>\<open>deleteNote\<close> (lines 110-118); \<open>None\<close> is a \<open>null\<close> or \<open>undefined\<close>
  argument. Removing the container or its parent takes the container out of the
  document and leaves its children alone.\<close>

fun remove_element :: "elem_ref \<Rightarrow> world \<Rightarrow> world" where
  "remove_element ContainerParent w = w\<lparr>containerInDocument := False\<rparr>"
| "remove_element (Within []) w = w\<lparr>containerInDocument := False\<rparr>"
| "remove_element (Within p) w = w\<lparr>notesContainer := remove_at p (notesContainer w)\<rparr>"

fun deleteNote :: "elem_ref option \<Rightarrow> world \<Rightarrow> world" where
  "deleteNote None w = w"
| "deleteNote (Some noteElement) w = updateStorage (remove_element noteElement w)"

text \<open>The event target, looked up in the page, and \<open>target.parentElement\<close>.\<close>

definition target_node :: "path \<Rightarrow> world \<Rightarrow> node option" where
  "target_node p w =
     (if p = [] then Some (Element (containerTag w) (containerClasses w) [] (notesContainer w))
      else node_at p (notesContainer w))"

definition parentElement :: "path \<Rightarrow> world \<Rightarrow> elem_ref option" where
  "parentElement p w =
     (if p = [] then (if containerInDocument w then Some ContainerParent else None)
      else Some (Within (butlast p)))"

text \<open>\<open>handleNotesClick\<close> (lines 147-155) and \<open>handleNotesInput\<close> (lines 158-165).
  The browser delivers these events with an element as target; a path that names no
  element delivers nothing.\<close>

definition handleNotesClick :: "path \<Rightarrow> world \<Rightarrow> world" where
  "handleNotesClick target w =
     (case target_node target w of
        Some (Element t c a kids) \<Rightarrow>
          (if t = ''IMG'' \<and> ''delete-btn'' \<in> set c
           then deleteNote (parentElement target w) (emit PreventDefault w)
           else w)
      | _ \<Rightarrow> w)"

definition handleNotesInput :: "path \<Rightarrow> world \<Rightarrow> world" where
  "handleNotesInput target w =
     (case target_node target w of
        Some (Element t c a kids) \<Rightarrow>
          (if ''input-box'' \<in> set c then updateStorage w else w)
      | _ \<Rightarrow> w)"

text \<open>The paste listener (lines 138-143): nothing but a zero-delay timeout.\<close>

definition handleNotesPaste :: "path \<Rightarrow> world \<Rightarrow> world" where
  "handleNotesPaste target w = snd (setTimeout PasteCallback 0 w)"

definition attachEventListeners :: "world \<Rightarrow> world" where
  "attachEventListeners w = w\<lparr>listening := True\<rparr>"

text \<open>The constructor and \<open>init\<close> (lines 7-29). \<open>found\<close> says whether both
  \<open>querySelector\<close> calls returned an element.\<close>

definition init :: "bool \<Rightarrow> world \<Rightarrow> world" where
  "init found w =
     (if \<not> found then emit (ConsoleError ''Required DOM elements not found'') w
      else (case isLocalStorageAvailable w of
              (ok, w1) \<Rightarrow>
                (let w2 = (if \<not> ok
                           then emit (ConsoleWarn ''localStorage is not available. Notes will not persist.'') w1
                           else w1)
                 in attachEventListeners (loadNotes w2))))"

definition NotesApp :: "bool \<Rightarrow> world \<Rightarrow> world" where
  "NotesApp found w = init found (w\<lparr>debounceTimer := None, debounceDelay := 300\<rparr>)"

text \<open>The events the listeners are attached for, and their delivery.\<close>

datatype event = CreateClick | NotesClick path | NotesInput path | NotesPaste path

fun dispatch :: "event \<Rightarrow> world \<Rightarrow> world" where
  "dispatch ev w =
     (if \<not> listening w then w
      else (case ev of
              CreateClick \<Rightarrow> createNote w
            | NotesClick target \<Rightarrow> handleNotesClick target w
            | NotesInput target \<Rightarrow> handleNotesInput target w
            | NotesPaste target \<Rightarrow> handleNotesPaste target w))"

section \<open>The host's schedule\<close>

text \<open>
  JavaScript runs each listener and each timer callback to completion; between them
  time passes and the host, when it gets round to it, runs the timeouts that have
  become due. \<open>wait\<close> lets time pass; \<open>runTimers\<close> runs every pending timeout
  that is due, the one due earliest first (the one set first among equals), including
  those that become due while it runs. A timeout is never run before it is due, but
  the host may be as late as it likes: that is the caller's choice of when to
  \<open>runTimers\<close>.
\<close>

definition wait :: "nat \<Rightarrow> world \<Rightarrow> world" where
  "wait d w = w\<lparr>clock := clock w + d\<rparr>"

definition due_timers :: "world \<Rightarrow> timer list" where
  "due_timers w = filter (\<lambda>t. fst (snd t) \<le> clock w) (timers w)"

fun earliest :: "timer \<Rightarrow> timer list \<Rightarrow> timer" where
  "earliest t [] = t"
| "earliest t (u # us) = (if fst (snd u) < fst (snd t) then earliest u us else earliest t us)"

fun run_callback :: "callback \<Rightarrow> world \<Rightarrow> world" where
  "run_callback SaveCallback w = saveCallback w"
| "run_callback PasteCallback w = updateStorage w"

text \<open>Running a paste callback may set one save timeout, running a save callback sets
  none: counting a pending paste callback twice gives a measure that every step of
  \<open>runTimers\<close> decreases.\<close>

fun weight :: "timer \<Rightarrow> nat" where
  "weight (i, d, SaveCallback) = 1"
| "weight (i, d, PasteCallback) = 2"

function runTimers :: "world \<Rightarrow> world" where
  "runTimers w =
     (case due_timers w of
        [] \<Rightarrow> w
      | t # ts \<Rightarrow>
          (case earliest t ts of
             (i, d, cb) \<Rightarrow>
               runTimers (run_callback cb (w\<lparr>timers := remove1 (i, d, cb) (timers w)\<rparr>))))"
  by pat_completeness auto
termination
proof (relation "measure (\<lambda>w. sum_list (map weight (timers w)))")
  show "wf (measure (\<lambda>w. sum_list (map weight (timers w))))" by simp
next
  fix w t ts i y d cb
  assume due: "due_timers w = t # ts" and e: "(i, y) = earliest t ts" "(d, cb) = y"
  let ?v = "w\<lparr>timers := remove1 (i, d, cb) (timers w)\<rparr>"
  have "earliest a as \<in> set (a # as)" for a :: timer and as
    by (induction as arbitrary: a) (auto split: if_splits)
  then have "earliest t ts \<in> set (due_timers w)" using due by simp
  then have mem: "(i, d, cb) \<in> set (timers w)" using e by (auto simp: due_timers_def)
  have rm: "x \<in> set xs \<Longrightarrow> sum_list (map weight (remove1 x xs)) + weight x = sum_list (map weight xs)"
    for x xs by (induction xs) auto
  have flt: "sum_list (map weight (filter P xs)) \<le> sum_list (map weight xs)" for P xs
    by (induction xs) auto
  have save: "timers (saveCallback ?v) = timers ?v"
    by (simp add: saveCallback_def localStorage_setItem_def emit_def Let_def split: option.splits)
  have upd: "sum_list (map weight (timers (updateStorage ?v))) \<le> Suc (sum_list (map weight (timers ?v)))"
    using flt[of "\<lambda>t. fst t \<noteq> the (debounceTimer ?v)" "timers ?v"]
    by (auto simp: updateStorage_def isLocalStorageAvailable_def localStorage_setItem_def
          localStorage_removeItem_def setTimeout_def clearTimeout_def emit_def Let_def
          split: option.splits)
  have "sum_list (map weight (timers (run_callback cb ?v))) < sum_list (map weight (timers ?v)) + weight (i, d, cb)"
    using save upd by (cases cb) simp_all
  then show "(run_callback cb ?v, w) \<in> measure (\<lambda>w. sum_list (map weight (timers w)))"
    using rm[OF mem] by simp
qed

declare runTimers.simps [simp del]

text \<open>A burst of save requests: one now and one after each of the given gaps, the
  host running its due timeouts before each. Then idling: time passes in the given
  steps, the host running its due timeouts after each.\<close>

fun burst :: "nat list \<Rightarrow> world \<Rightarrow> world" where
  "burst [] w = updateStorage w"
| "burst (d # ds) w = burst ds (runTimers (wait d (updateStorage w)))"

fun idle :: "nat list \<Rightarrow> world \<Rightarrow> world" where
  "idle [] w = w"
| "idle (d # ds) w = idle ds (runTimers (wait d w))"

text \<open>A run of the application: time passing, the host running due timeouts, an
  event being delivered to the listeners, the user (or a default action of the
  browser) changing the tree under the container.\<close>

datatype step = Wait nat | RunTimers | Deliver event | UserEdit "node list"

fun exec :: "step \<Rightarrow> world \<Rightarrow> world" where
  "exec (Wait d) w = wait d w"
| "exec RunTimers w = runTimers w"
| "exec (Deliver ev) w = dispatch ev w"
| "exec (UserEdit tree) w = w\<lparr>notesContainer := tree\<rparr>"

definition run :: "step list \<Rightarrow> world \<Rightarrow> world" where
  "run steps w = foldl (\<lambda>w s. exec s w) w steps"

subsection \<open>Reading the trace\<close>

text \<open>The times of the \<open>setItem\<close> calls on the snapshot key, the snapshots they were
  handed, and what a run added to the trace.\<close>

fun is_save :: "effect \<Rightarrow> bool" where
  "is_save (SetItem k v) = (k = ''notes'')"
| "is_save e = False"

definition save_times :: "(nat \<times> effect) list \<Rightarrow> nat list" where
  "save_times tr = map fst (filter (\<lambda>x. is_save (snd x)) tr)"

definition saved_snapshots :: "(nat \<times> effect) list \<Rightarrow> string list" where
  "saved_snapshots tr = concat (map (\<lambda>x. case snd x of SetItem k v \<Rightarrow> if k = ''notes'' then [v] else [] | _ \<Rightarrow> []) tr)"

definition new_effects :: "world \<Rightarrow> world \<Rightarrow> effect list" where
  "new_effects w w' = map snd (drop (length (trace w)) (trace w'))"

subsection \<open>Conditions on a state\<close>

text \<open>The probe's two calls do not throw.\<close>

definition medium_available :: "world \<Rightarrow> bool" where
  "medium_available w =
     (set_error (localStorage w) ''test'' ''test'' = None \<and>
      remove_error (localStorage w) ''test'' = None)"

text \<open>Every pending timeout carries the (non-zero) handle \<open>this.debounceTimer\<close>
  holds, so the next \<open>clearTimeout\<close> of \<open>updateStorage\<close> empties the queue.\<close>

definition only_debounce_pending :: "world \<Rightarrow> bool" where
  "only_debounce_pending w =
     list_all (\<lambda>t. fst t \<noteq> 0 \<and> debounceTimer w = Some (fst t)) (timers w)"

text \<open>Exactly one timeout is pending: the save callback, due at \<open>T\<close>, held by
  \<open>this.debounceTimer\<close>.\<close>

definition armed :: "world \<Rightarrow> nat \<Rightarrow> bool" where
  "armed w T =
     (timers w = [(lastTimerId w, T, SaveCallback)] \<and>
      debounceTimer w = Some (lastTimerId w) \<and> lastTimerId w \<noteq> 0)"

text \<open>The invariant of the single timer slot: the delay is the constructor's 300, and
  every pending save callback is the timeout \<open>this.debounceTimer\<close> holds.\<close>

definition save_slot :: "world \<Rightarrow> bool" where
  "save_slot w =
     (debounceDelay w = 300 \<and>
      list_all (\<lambda>t. snd (snd t) = SaveCallback \<longrightarrow> fst t \<noteq> 0 \<and> debounceTimer w = Some (fst t))
        (timers w))"

text \<open>Handles are handed out in increasing order: no pending timeout and no held handle
  is newer than the last one handed out. A pending paste callback was set with delay
  zero, so it is due, and its handle is not the one \<open>this.debounceTimer\<close> holds.\<close>

definition handles_ok :: "world \<Rightarrow> bool" where
  "handles_ok w =
     (list_all (\<lambda>t. fst t \<le> lastTimerId w \<and>
                     (snd (snd t) = PasteCallback \<longrightarrow>
                        fst (snd t) \<le> clock w \<and> debounceTimer w \<noteq> Some (fst t)))
        (timers w) \<and>
      (case debounceTimer w of None \<Rightarrow> True | Some i \<Rightarrow> i \<le> lastTimerId w))"

text \<open>What holds of the application in every state of a run once the constructor has
  found its elements on a page with an available medium.\<close>

definition app_ok :: "world \<Rightarrow> bool" where
  "app_ok w = (listening w \<and> medium_available w \<and> save_slot w \<and> handles_ok w)"

text \<open>The number of save timeouts that are due.\<close>

definition due_saves :: "world \<Rightarrow> nat" where
  "due_saves w =
     length (filter (\<lambda>t. snd (snd t) = SaveCallback \<and> fst (snd t) \<le> clock w) (timers w))"

subsection \<open>Example pages\<close>

text \<open>A stand-in for the browser's serializer and parser, and a page with an empty
  container and a working, empty \<open>localStorage\<close>.\<close>

fun outline :: "node \<Rightarrow> string" where
  "outline (Text s) = s"
| "outline (Element t c a kids) = ''<'' @ t @ ''>'' @ concat (map outline kids) @ ''</'' @ t @ ''>''"

definition working :: "(string \<rightharpoonup> string) \<Rightarrow> medium" where
  "working m = \<lparr>items = m, set_error = (\<lambda>k v. None), get_error = (\<lambda>k. None),
                remove_error = (\<lambda>k. None)\<rparr>"

definition rejecting :: "string \<Rightarrow> (string \<rightharpoonup> string) \<Rightarrow> medium" where
  "rejecting e m = \<lparr>items = m, set_error = (\<lambda>k v. Some (JsError e)), get_error = (\<lambda>k. None),
                    remove_error = (\<lambda>k. None)\<rparr>"

definition page :: "node list \<Rightarrow> medium \<Rightarrow> world" where
  "page content m =
     \<lparr>notesContainer = content, debounceTimer = None, debounceDelay = 0,
      containerTag = ''DIV'', containerClasses = [''notes-container''],
      containerInDocument = True, listening = False,
      clock = 0, timers = [], lastTimerId = 0, localStorage = m,
      serializeHTML = (\<lambda>ns. concat (map outline ns)), parseHTML = (\<lambda>s. [Text s]),
      trace = []\<rparr>"

section \<open>Auxiliary facts\<close>

lemmas prims = emit_def localStorage_setItem_def localStorage_removeItem_def
  localStorage_getItem_def setTimeout_def clearTimeout_def isLocalStorageAvailable_def

text \<open>The probe answers \<open>true\<close> exactly when neither of its two calls throws.\<close>

lemma probe_iff: "fst (isLocalStorageAvailable w) = medium_available w"
  by (auto simp: medium_available_def prims Let_def split: option.splits)

lemma timers_saveCallback: "timers (saveCallback w) = timers w"
  by (simp add: saveCallback_def prims Let_def split: option.splits)

lemma armed_pending: "armed w T \<Longrightarrow> only_debounce_pending w"
  by (simp add: armed_def only_debounce_pending_def)

lemma filter_pending:
  "only_debounce_pending w \<Longrightarrow> debounceTimer w = Some i \<Longrightarrow> filter (\<lambda>t. fst t \<noteq> i) (timers w) = []"
  by (auto simp: only_debounce_pending_def list_all_iff filter_empty_conv)

lemma pending_None: "only_debounce_pending w \<Longrightarrow> debounceTimer w = None \<Longrightarrow> timers w = []"
  by (cases "timers w") (auto simp: only_debounce_pending_def)

lemma pending_zero: "only_debounce_pending w \<Longrightarrow> debounceTimer w = Some 0 \<Longrightarrow> timers w = []"
  by (cases "timers w") (auto simp: only_debounce_pending_def)

text \<open>One request on an available medium: whatever was pending is gone, the new save
  timeout is the only one, and no save has happened.\<close>

lemma updateStorage_available:
  assumes "medium_available w" "only_debounce_pending w"
  shows "armed (updateStorage w) (clock w + debounceDelay w)"
    and "clock (updateStorage w) = clock w"
    and "debounceDelay (updateStorage w) = debounceDelay w"
    and "save_times (trace (updateStorage w)) = save_times (trace w)"
    and "medium_available (updateStorage w)"
    and "saved_snapshots (trace (updateStorage w)) = saved_snapshots (trace w)"
    and "notesContainer (updateStorage w) = notesContainer w"
    and "serializeHTML (updateStorage w) = serializeHTML w"
  using assms filter_pending[of w] pending_None[of w] pending_zero[of w]
  by (auto simp: updateStorage_def medium_available_def prims Let_def armed_def save_times_def
           saved_snapshots_def split: option.splits)

lemma runTimers_none_due: "due_timers w = [] \<Longrightarrow> runTimers w = w"
  by (subst runTimers.simps) simp

lemma runTimers_no_timers: "timers w = [] \<Longrightarrow> runTimers w = w"
  by (simp add: runTimers_none_due due_timers_def)

lemma runTimers_not_yet: "timers w = [(i, T, cb)] \<Longrightarrow> clock w < T \<Longrightarrow> runTimers w = w"
  by (simp add: runTimers_none_due due_timers_def)

lemma runTimers_fire:
  assumes "timers w = [(i, T, SaveCallback)]" "T \<le> clock w"
  shows "runTimers w = saveCallback (w\<lparr>timers := []\<rparr>)"
proof -
  have "due_timers w = [(i, T, SaveCallback)]" using assms by (simp add: due_timers_def)
  then have "runTimers w = runTimers (saveCallback (w\<lparr>timers := []\<rparr>))"
    using assms by (subst runTimers.simps) simp
  then show ?thesis by (simp add: runTimers_no_timers timers_saveCallback)
qed

lemma saveCallback_facts:
  "save_times (trace (saveCallback w)) = save_times (trace w) @ [clock w]"
  "saved_snapshots (trace (saveCallback w)) = saved_snapshots (trace w) @ [serializeHTML w (notesContainer w)]"
  "clock (saveCallback w) = clock w"
  by (simp_all add: saveCallback_def prims Let_def save_times_def saved_snapshots_def
        split: option.splits)

lemma wait_facts [simp]:
  "clock (wait d w) = clock w + d" "timers (wait d w) = timers w" "trace (wait d w) = trace w"
  "debounceDelay (wait d w) = debounceDelay w" "debounceTimer (wait d w) = debounceTimer w"
  "lastTimerId (wait d w) = lastTimerId w" "localStorage (wait d w) = localStorage w"
  "notesContainer (wait d w) = notesContainer w" "serializeHTML (wait d w) = serializeHTML w"
  by (simp_all add: wait_def)

lemma burst_inv:
  assumes "medium_available w" "only_debounce_pending w" "\<forall>d\<in>set ds. d < debounceDelay w"
  shows "armed (burst ds w) (clock w + sum_list ds + debounceDelay w)
       \<and> clock (burst ds w) = clock w + sum_list ds
       \<and> debounceDelay (burst ds w) = debounceDelay w
       \<and> save_times (trace (burst ds w)) = save_times (trace w)
       \<and> medium_available (burst ds w)"
  using assms
proof (induction ds arbitrary: w)
  case Nil
  then show ?case using updateStorage_available[of w] by simp
next
  case (Cons d ds)
  let ?u = "updateStorage w"
  let ?v = "wait d ?u"
  note u = updateStorage_available[OF Cons.prems(1,2)]
  have d: "d < debounceDelay w" using Cons.prems(3) by simp
  have tv: "timers ?v = [(lastTimerId ?u, clock w + debounceDelay w, SaveCallback)]"
    using u(1) by (simp add: armed_def)
  have "clock ?v < clock w + debounceDelay w" using u(2) d by simp
  then have run: "runTimers ?v = ?v" using runTimers_not_yet[OF tv] by simp
  have av: "armed ?v (clock w + debounceDelay w)" using u(1) by (simp add: armed_def)
  have mv: "medium_available ?v" using u(5) by (simp add: medium_available_def)
  have dv: "\<forall>d\<in>set ds. d < debounceDelay ?v" using Cons.prems(3) u(3) by simp
  from Cons.IH[OF mv armed_pending[OF av] dv] run u(2,3,4)
  show ?case by (simp add: add.assoc)
qed

lemma idle_no_timers: "timers w = [] \<Longrightarrow> idle ws w = w\<lparr>clock := clock w + sum_list ws\<rparr>"
proof (induction ws arbitrary: w)
  case Nil
  then show ?case by simp
next
  case (Cons d ws)
  have "runTimers (wait d w) = wait d w" using Cons.prems by (simp add: runTimers_no_timers)
  then show ?case using Cons.IH[of "wait d w"] Cons.prems by (simp add: wait_def add.assoc)
qed

lemma idle_before:
  "timers w = [(i, T, cb)] \<Longrightarrow> clock w + sum_list ws < T
     \<Longrightarrow> idle ws w = w\<lparr>clock := clock w + sum_list ws\<rparr>"
proof (induction ws arbitrary: w)
  case Nil
  then show ?case by simp
next
  case (Cons d ws)
  have "runTimers (wait d w) = wait d w"
    using Cons.prems runTimers_not_yet[of "wait d w" i T cb] by simp
  then show ?case using Cons.IH[of "wait d w"] Cons.prems by (simp add: wait_def add.assoc)
qed

lemma idle_after:
  "timers w = [(i, T, SaveCallback)] \<Longrightarrow> T \<le> clock w + sum_list ws \<Longrightarrow> ws \<noteq> []
     \<Longrightarrow> \<exists>t. T \<le> t \<and> t \<le> clock w + sum_list ws
            \<and> save_times (trace (idle ws w)) = save_times (trace w) @ [t] \<and> timers (idle ws w) = []"
proof (induction ws arbitrary: w)
  case Nil
  then show ?case by simp
next
  case (Cons d ws)
  show ?case
  proof (cases "T \<le> clock w + d")
    case True
    let ?f = "saveCallback ((wait d w)\<lparr>timers := []\<rparr>)"
    have run: "runTimers (wait d w) = ?f"
      using runTimers_fire[of "wait d w" i T] Cons.prems(1) True by simp
    have tf: "timers ?f = []" by (simp add: timers_saveCallback)
    have "idle (d # ws) w = ?f\<lparr>clock := clock ?f + sum_list ws\<rparr>"
      using idle_no_timers[OF tf, of ws] run by simp
    then show ?thesis using True tf by (simp add: saveCallback_facts)
  next
    case False
    then have run: "runTimers (wait d w) = wait d w"
      using runTimers_not_yet[of "wait d w" i T SaveCallback] Cons.prems(1) by simp
    have ne: "ws \<noteq> []" using False Cons.prems(2) by auto
    from Cons.IH[of "wait d w"] Cons.prems ne run show ?thesis by (simp add: add.assoc)
  qed
qed

text \<open>The application as the constructor leaves it on an empty page with a working,
  empty medium.\<close>

lemma app_facts:
  "medium_available (NotesApp True (page [] (working Map.empty)))"
  "only_debounce_pending (NotesApp True (page [] (working Map.empty)))"
  "debounceDelay (NotesApp True (page [] (working Map.empty))) = 300"
  "save_times (trace (NotesApp True (page [] (working Map.empty)))) = []"
  "clock (NotesApp True (page [] (working Map.empty))) = 0"
  by (simp_all add: NotesApp_def init_def loadNotes_def attachEventListeners_def prims page_def working_def
       medium_available_def only_debounce_pending_def save_times_def Let_def)

lemma updateStorage_medium:
  "set_error (localStorage (updateStorage w)) = set_error (localStorage w)"
  "get_error (localStorage (updateStorage w)) = get_error (localStorage w)"
  "items (localStorage (updateStorage w)) ''notes'' = items (localStorage w) ''notes''"
  by (simp_all add: updateStorage_def prims Let_def split: option.splits)

lemma probe_facts:
  "timers (snd (isLocalStorageAvailable w)) = timers w"
  "debounceTimer (snd (isLocalStorageAvailable w)) = debounceTimer w"
  "notesContainer (snd (isLocalStorageAvailable w)) = notesContainer w"
  "clock (snd (isLocalStorageAvailable w)) = clock w"
  "items (localStorage (snd (isLocalStorageAvailable w))) ''notes'' = items (localStorage w) ''notes''"
  "new_effects w (snd (isLocalStorageAvailable w)) = [SetItem ''test'' ''test'']
     \<or> new_effects w (snd (isLocalStorageAvailable w)) = [SetItem ''test'' ''test'', RemoveItem ''test'']"
  by (simp_all add: prims Let_def new_effects_def split: option.splits)

lemma updateStorage_unavailable:
  "\<not> fst (isLocalStorageAvailable w) \<Longrightarrow> updateStorage w = snd (isLocalStorageAvailable w)"
  by (cases "isLocalStorageAvailable w") (simp add: updateStorage_def)

lemma updateStorage_keeps:
  "notesContainer (updateStorage w) = notesContainer w"
  "clock (updateStorage w) = clock w"
  "serializeHTML (updateStorage w) = serializeHTML w"
  "containerInDocument (updateStorage w) = containerInDocument w"
  by (simp_all add: updateStorage_def prims Let_def split: option.splits)

text \<open>When the save timeout is the only one pending and the host runs its timers at or
  after its due time, one more snapshot is handed to \<open>setItem\<close>: the serialization
  of the tree as it is then.\<close>

lemma armed_fire:
  assumes "armed r T" and "T \<le> clock r + e"
  shows "saved_snapshots (trace (runTimers (wait e r)))
           = saved_snapshots (trace r) @ [serializeHTML r (notesContainer r)]"
proof -
  have t: "timers (wait e r) = [(lastTimerId r, T, SaveCallback)]"
    using assms(1) by (simp add: armed_def)
  have "T \<le> clock (wait e r)" using assms(2) by simp
  from runTimers_fire[OF t this] show ?thesis by (simp add: saveCallback_facts)
qed

subsection \<open>The timer slot along every run\<close>

text \<open>The constructor establishes the invariant and every step of a run keeps it, so in
  every reachable state with no paste callback pending, nothing but the debounce
  timeout is pending.\<close>

lemma save_slot_updateStorage: "save_slot w \<Longrightarrow> save_slot (updateStorage w)"
  by (auto simp: save_slot_def updateStorage_def prims Let_def list_all_iff split: option.splits)

lemma save_slot_saveCallback: "save_slot w \<Longrightarrow> save_slot (saveCallback w)"
  by (auto simp: save_slot_def saveCallback_def prims Let_def split: option.splits)

lemma save_slot_remove1: "save_slot w \<Longrightarrow> save_slot (w\<lparr>timers := remove1 t (timers w)\<rparr>)"
  by (auto simp: save_slot_def list_all_iff dest: notin_set_remove1)

lemma save_slot_runTimers: "save_slot w \<Longrightarrow> save_slot (runTimers w)"
proof (induction w rule: runTimers.induct)
  case (1 w)
  show ?case
  proof (cases "due_timers w")
    case Nil
    then show ?thesis using "1.prems" by (simp add: runTimers_none_due)
  next
    case (Cons t ts)
    obtain i d cb where e: "earliest t ts = (i, d, cb)" by (cases "earliest t ts")
    let ?v = "w\<lparr>timers := remove1 (i, d, cb) (timers w)\<rparr>"
    have "save_slot (run_callback cb ?v)"
      using save_slot_remove1[OF "1.prems", of "(i, d, cb)"]
      by (cases cb) (simp_all add: save_slot_updateStorage save_slot_saveCallback)
    from "1.IH"[OF Cons e[symmetric] refl this]
    have "save_slot (runTimers (run_callback cb ?v))" .
    moreover have "runTimers w = runTimers (run_callback cb ?v)"
      by (subst runTimers.simps) (simp add: Cons e)
    ultimately show ?thesis by simp
  qed
qed

lemma save_slot_dispatch: "save_slot w \<Longrightarrow> save_slot (dispatch ev w)"
proof (cases ev)
  case CreateClick
  assume "save_slot w"
  then have "save_slot (emit (Focus [length (notesContainer w)])
                (w\<lparr>notesContainer := notesContainer w @ [inputBox (clock w)]\<rparr>))"
    by (simp add: save_slot_def emit_def)
  then show ?thesis using CreateClick \<open>save_slot w\<close>
    by (simp add: createNote_def Let_def save_slot_updateStorage)
next
  case (NotesClick p)
  assume s: "save_slot w"
  have r: "save_slot (remove_element x (emit PreventDefault w))" for x
    using s by (cases "(x, emit PreventDefault w)" rule: remove_element.cases)
               (simp_all add: save_slot_def emit_def)
  have e: "save_slot (emit PreventDefault w)" using s by (simp add: save_slot_def emit_def)
  have "save_slot (deleteNote x (emit PreventDefault w))" for x
    using r e by (cases x) (simp_all add: save_slot_updateStorage)
  then show ?thesis using NotesClick s
    by (simp add: handleNotesClick_def split: option.splits node.splits)
next
  case (NotesInput p)
  assume "save_slot w"
  then show ?thesis using NotesInput
    by (simp add: handleNotesInput_def save_slot_updateStorage split: option.splits node.splits)
next
  case (NotesPaste p)
  assume "save_slot w"
  then show ?thesis using NotesPaste
    by (simp add: handleNotesPaste_def setTimeout_def emit_def Let_def save_slot_def)
qed

lemma save_slot_exec: "save_slot w \<Longrightarrow> save_slot (exec s w)"
  by (cases s) (simp_all add: save_slot_runTimers save_slot_dispatch del: dispatch.simps,
                simp_all add: save_slot_def wait_def)

lemma save_slot_run: "save_slot w \<Longrightarrow> save_slot (run steps w)"
  unfolding run_def by (induction steps arbitrary: w) (simp_all add: save_slot_exec)

lemma save_slot_NotesApp: "timers w = [] \<Longrightarrow> save_slot (NotesApp found w)"
  by (simp add: save_slot_def NotesApp_def init_def loadNotes_def attachEventListeners_def prims Let_def
        split: option.splits prod.splits sum.splits)

lemma save_slot_pending:
  "save_slot w \<Longrightarrow> list_all (\<lambda>t. snd (snd t) = SaveCallback) (timers w) \<Longrightarrow> only_debounce_pending w"
  by (auto simp: save_slot_def only_debounce_pending_def list_all_iff)

subsection \<open>Runs with paste callbacks pending\<close>

text \<open>The constructor establishes \<open>app_ok\<close> and every step of a run keeps it.\<close>

lemma updateStorage_fixed:
  "listening (updateStorage w) = listening w"
  "medium_available (updateStorage w) = medium_available w"
  by (simp_all add: updateStorage_def medium_available_def prims Let_def split: option.splits)

lemma saveCallback_fixed:
  "listening (saveCallback w) = listening w"
  "medium_available (saveCallback w) = medium_available w"
  "debounceTimer (saveCallback w) = debounceTimer w"
  "lastTimerId (saveCallback w) = lastTimerId w"
  "notesContainer (saveCallback w) = notesContainer w"
  "serializeHTML (saveCallback w) = serializeHTML w"
  by (simp_all add: saveCallback_def medium_available_def prims Let_def split: option.splits)

lemma handles_ok_updateStorage: "handles_ok w \<Longrightarrow> handles_ok (updateStorage w)"
  by (auto simp: handles_ok_def updateStorage_def prims Let_def list_all_iff split: option.splits)

lemma handles_ok_saveCallback: "handles_ok w \<Longrightarrow> handles_ok (saveCallback w)"
  by (simp add: handles_ok_def timers_saveCallback saveCallback_fixed saveCallback_facts
        split: option.splits)

lemma handles_ok_remove1: "handles_ok w \<Longrightarrow> handles_ok (w\<lparr>timers := remove1 t (timers w)\<rparr>)"
  by (auto simp: handles_ok_def list_all_iff dest: notin_set_remove1 split: option.splits)

lemma app_ok_updateStorage: "app_ok w \<Longrightarrow> app_ok (updateStorage w)"
  by (simp add: app_ok_def updateStorage_fixed save_slot_updateStorage handles_ok_updateStorage)

lemma app_ok_saveCallback: "app_ok w \<Longrightarrow> app_ok (saveCallback w)"
  by (simp add: app_ok_def saveCallback_fixed save_slot_saveCallback handles_ok_saveCallback)

lemma app_ok_remove1: "app_ok w \<Longrightarrow> app_ok (w\<lparr>timers := remove1 t (timers w)\<rparr>)"
  using save_slot_remove1[of w t] handles_ok_remove1[of w t]
  by (simp add: app_ok_def medium_available_def)

lemma app_ok_runTimers: "app_ok w \<Longrightarrow> app_ok (runTimers w)"
proof (induction w rule: runTimers.induct)
  case (1 w)
  show ?case
  proof (cases "due_timers w")
    case Nil
    then show ?thesis using "1.prems" by (simp add: runTimers_none_due)
  next
    case (Cons t ts)
    obtain i d cb where e: "earliest t ts = (i, d, cb)" by (cases "earliest t ts")
    let ?v = "w\<lparr>timers := remove1 (i, d, cb) (timers w)\<rparr>"
    have "app_ok (run_callback cb ?v)"
      using app_ok_remove1[OF "1.prems", of "(i, d, cb)"]
      by (cases cb) (simp_all add: app_ok_updateStorage app_ok_saveCallback)
    from "1.IH"[OF Cons e[symmetric] refl this]
    have "app_ok (runTimers (run_callback cb ?v))" .
    moreover have "runTimers w = runTimers (run_callback cb ?v)"
      by (subst runTimers.simps) (simp add: Cons e)
    ultimately show ?thesis by simp
  qed
qed

lemma app_ok_emit: "app_ok w \<Longrightarrow> app_ok (emit e w)"
  by (simp add: app_ok_def medium_available_def save_slot_def handles_ok_def emit_def
        split: option.splits)

lemma app_ok_tree: "app_ok w \<Longrightarrow> app_ok (w\<lparr>notesContainer := tree\<rparr>)"
  by (simp add: app_ok_def medium_available_def save_slot_def handles_ok_def split: option.splits)

lemma app_ok_detach: "app_ok w \<Longrightarrow> app_ok (w\<lparr>containerInDocument := b\<rparr>)"
  by (simp add: app_ok_def medium_available_def save_slot_def handles_ok_def split: option.splits)

lemma app_ok_wait: "app_ok w \<Longrightarrow> app_ok (wait d w)"
  by (auto simp: app_ok_def medium_available_def save_slot_def handles_ok_def wait_def list_all_iff
        split: option.splits)

lemma app_ok_paste: "app_ok w \<Longrightarrow> app_ok (handleNotesPaste target w)"
  by (auto simp: app_ok_def medium_available_def save_slot_def handles_ok_def handleNotesPaste_def
        setTimeout_def emit_def Let_def list_all_iff split: option.splits)

lemma app_ok_dispatch: "app_ok w \<Longrightarrow> app_ok (dispatch ev w)"
proof (cases ev)
  case CreateClick
  assume a: "app_ok w"
  then show ?thesis using CreateClick
    by (simp add: createNote_def Let_def app_ok_updateStorage app_ok_emit app_ok_tree)
next
  case (NotesClick p)
  assume a: "app_ok w"
  have r: "app_ok (remove_element x (emit PreventDefault w))" for x
    using app_ok_emit[OF a, of PreventDefault]
    by (cases "(x, emit PreventDefault w)" rule: remove_element.cases)
       (simp_all add: app_ok_tree app_ok_detach)
  have "app_ok (deleteNote x (emit PreventDefault w))" for x
    using r app_ok_emit[OF a, of PreventDefault] by (cases x) (simp_all add: app_ok_updateStorage)
  then show ?thesis using NotesClick a
    by (simp add: handleNotesClick_def split: option.splits node.splits)
next
  case (NotesInput p)
  assume "app_ok w"
  then show ?thesis using NotesInput
    by (simp add: handleNotesInput_def app_ok_updateStorage split: option.splits node.splits)
next
  case (NotesPaste p)
  assume "app_ok w"
  then show ?thesis using NotesPaste by (simp add: app_ok_paste)
qed

lemma app_ok_exec: "app_ok w \<Longrightarrow> app_ok (exec s w)"
  by (cases s) (simp_all add: app_ok_runTimers app_ok_dispatch app_ok_wait app_ok_tree
                  del: dispatch.simps)

lemma app_ok_run: "app_ok w \<Longrightarrow> app_ok (run steps w)"
  unfolding run_def by (induction steps arbitrary: w) (simp_all add: app_ok_exec)

lemma app_ok_NotesApp:
  "timers w = [] \<Longrightarrow> medium_available w \<Longrightarrow> app_ok (NotesApp True w)"
  by (simp add: app_ok_def save_slot_def handles_ok_def medium_available_def NotesApp_def init_def
        loadNotes_def attachEventListeners_def prims Let_def
        split: option.splits prod.splits sum.splits)

text \<open>On such a state a save request clears exactly the pending save timeouts, keeps
  the pending paste callbacks and arms one save timeout a full delay ahead.\<close>

lemma updateStorage_probe_ok:
  "medium_available v \<Longrightarrow>
   updateStorage v =
     (let w1 = snd (isLocalStorageAvailable v);
          w2 = (case debounceTimer w1 of
                  None \<Rightarrow> w1
                | Some i \<Rightarrow> if i \<noteq> 0 then clearTimeout i w1 else w1)
      in (snd (setTimeout SaveCallback (debounceDelay w2) w2))\<lparr>debounceTimer := Some (Suc (lastTimerId w2))\<rparr>)"
  by (simp add: updateStorage_def medium_available_def prims Let_def split: option.splits)

lemma probe_more:
  "lastTimerId (snd (isLocalStorageAvailable w)) = lastTimerId w"
  "debounceDelay (snd (isLocalStorageAvailable w)) = debounceDelay w"
  "saved_snapshots (trace (snd (isLocalStorageAvailable w))) = saved_snapshots (trace w)"
  by (simp_all add: prims Let_def saved_snapshots_def split: option.splits)

lemmas after_probe = setTimeout_def clearTimeout_def emit_def Let_def
  probe_facts(1-4) probe_more

lemma updateStorage_app_ok:
  assumes "app_ok v"
  shows "timers (updateStorage v) =
           filter (\<lambda>t. snd (snd t) = PasteCallback) (timers v)
             @ [(Suc (lastTimerId v), clock v + 300, SaveCallback)]"
    and "debounceTimer (updateStorage v) = Some (Suc (lastTimerId v))"
    and "lastTimerId (updateStorage v) = Suc (lastTimerId v)"
    and "saved_snapshots (trace (updateStorage v)) = saved_snapshots (trace v)"
proof -
  have m: "medium_available v" and d: "debounceDelay v = 300"
    and s: "\<And>t. t \<in> set (timers v) \<Longrightarrow> snd (snd t) = SaveCallback \<Longrightarrow> fst t \<noteq> 0 \<and> debounceTimer v = Some (fst t)"
    and p: "\<And>t. t \<in> set (timers v) \<Longrightarrow> snd (snd t) = PasteCallback \<Longrightarrow> debounceTimer v \<noteq> Some (fst t)"
    using assms by (auto simp: app_ok_def save_slot_def handles_ok_def list_all_iff)
  let ?P = "filter (\<lambda>t. snd (snd t) = PasteCallback) (timers v)"
  have keep: "?P = timers v" if "debounceTimer v = None \<or> debounceTimer v = Some 0"
  proof -
    have "snd (snd t) = PasteCallback" if "t \<in> set (timers v)" for t
    proof (cases "snd (snd t)")
      case SaveCallback
      with s[OF that] \<open>debounceTimer v = None \<or> debounceTimer v = Some 0\<close> show ?thesis by auto
    qed simp
    then show ?thesis by (simp add: filter_id_conv)
  qed
  have clear: "filter (\<lambda>t. fst t \<noteq> i) (timers v) = ?P" if i: "debounceTimer v = Some i" for i
  proof (rule filter_cong[OF refl])
    fix t assume t: "t \<in> set (timers v)"
    show "(fst t \<noteq> i) = (snd (snd t) = PasteCallback)"
    proof (cases "snd (snd t)")
      case SaveCallback
      with s[OF t] i show ?thesis by simp
    next
      case PasteCallback
      with p[OF t] i show ?thesis by auto
    qed
  qed
  have t: "timers (updateStorage v) = ?P @ [(Suc (lastTimerId v), clock v + 300, SaveCallback)]"
  proof (cases "debounceTimer v")
    case None
    then show ?thesis using keep d
      by (simp add: updateStorage_probe_ok[OF m] after_probe)
  next
    case (Some i)
    show ?thesis
    proof (cases "i = 0")
      case True
      then show ?thesis using keep Some d
        by (simp add: updateStorage_probe_ok[OF m] after_probe)
    next
      case False
      then show ?thesis using clear[OF Some] Some d
        by (simp add: updateStorage_probe_ok[OF m] after_probe)
    qed
  qed
  show "timers (updateStorage v) = ?P @ [(Suc (lastTimerId v), clock v + 300, SaveCallback)]"
    by (rule t)
  show "debounceTimer (updateStorage v) = Some (Suc (lastTimerId v))"
    "lastTimerId (updateStorage v) = Suc (lastTimerId v)"
    "saved_snapshots (trace (updateStorage v)) = saved_snapshots (trace v)"
    using probe_more(3)[of v]
    by (simp_all add: updateStorage_probe_ok[OF m] after_probe saved_snapshots_def split: option.splits)
qed

text \<open>The host's timer run with a paste callback pending: every snapshot it takes is of
  the tree as it is now, it takes at most as many as save timeouts were due, and it
  leaves the save timeout armed a full delay ahead as the only pending timeout.\<close>

lemma earliest_mem: "earliest t ts \<in> set (t # ts)"
  by (induction ts arbitrary: t) (auto split: if_splits)

lemma filter_remove1_length:
  "x \<in> set xs \<Longrightarrow> P x \<Longrightarrow> Suc (length (filter P (remove1 x xs))) = length (filter P xs)"
  by (induction xs) auto

lemma runTimers_step:
  "due_timers v = t # ts \<Longrightarrow> earliest t ts = (i, d, cb) \<Longrightarrow>
   runTimers v = runTimers (run_callback cb (v\<lparr>timers := remove1 (i, d, cb) (timers v)\<rparr>))"
  by (subst runTimers.simps) simp

lemma runTimers_after_paste:
  assumes "app_ok v"
    and "(\<exists>t\<in>set (timers v). snd (snd t) = PasteCallback) \<or> armed v (clock v + 300)"
  shows "\<exists>k. k \<le> due_saves v
            \<and> armed (runTimers v) (clock v + 300)
            \<and> saved_snapshots (trace (runTimers v))
                = saved_snapshots (trace v) @ replicate k (serializeHTML v (notesContainer v))
            \<and> clock (runTimers v) = clock v
            \<and> notesContainer (runTimers v) = notesContainer v
            \<and> serializeHTML (runTimers v) = serializeHTML v"
  using assms
proof (induction v rule: runTimers.induct)
  case (1 v)
  note ok = "1.prems"(1)
  have pdue: "fst (snd t) \<le> clock v" if "t \<in> set (timers v)" "snd (snd t) = PasteCallback" for t
    using ok that by (auto simp: app_ok_def handles_ok_def list_all_iff)
  show ?case
  proof (cases "due_timers v")
    case Nil
    have "\<not> (\<exists>t\<in>set (timers v). snd (snd t) = PasteCallback)"
    proof
      assume "\<exists>t\<in>set (timers v). snd (snd t) = PasteCallback"
      then obtain t where "t \<in> set (timers v)" "snd (snd t) = PasteCallback" by blast
      then have "t \<in> set (due_timers v)" using pdue by (simp add: due_timers_def)
      then show False using Nil by simp
    qed
    then have "armed v (clock v + 300)" using "1.prems"(2) by blast
    then show ?thesis using Nil by (intro exI[of _ 0]) (simp add: runTimers_none_due)
  next
    case (Cons t ts)
    obtain i d cb where e: "earliest t ts = (i, d, cb)" by (cases "earliest t ts")
    let ?x = "(i, d, cb)"
    let ?v' = "v\<lparr>timers := remove1 ?x (timers v)\<rparr>"
    have "?x \<in> set (due_timers v)" using earliest_mem[of t ts] e Cons by simp
    then have mem: "?x \<in> set (timers v)" and due: "d \<le> clock v" by (simp_all add: due_timers_def)
    have "\<not> armed v (clock v + 300)"
    proof
      assume "armed v (clock v + 300)"
      then have "due_timers v = []" by (simp add: armed_def due_timers_def)
      then show False using Cons by simp
    qed
    then obtain p where p: "p \<in> set (timers v)" "snd (snd p) = PasteCallback"
      using "1.prems"(2) by blast
    have ok': "app_ok ?v'" using app_ok_remove1[OF ok] .
    have step: "runTimers v = runTimers (run_callback cb ?v')" using runTimers_step[OF Cons e] .
    show ?thesis
    proof (cases cb)
      case SaveCallback
      let ?v1 = "saveCallback ?v'"
      have ok1: "app_ok ?v1" using app_ok_saveCallback[OF ok'] .
      have "p \<noteq> ?x" using p(2) SaveCallback by auto
      then have "p \<in> set (timers ?v1)" using p(1) by (simp add: timers_saveCallback)
      then have pp: "(\<exists>t\<in>set (timers ?v1). snd (snd t) = PasteCallback) \<or> armed ?v1 (clock ?v1 + 300)"
        using p(2) by blast
      from "1.IH"[OF Cons e[symmetric] refl] SaveCallback ok1 pp
      obtain k where k: "k \<le> due_saves ?v1" "armed (runTimers ?v1) (clock ?v1 + 300)"
        "saved_snapshots (trace (runTimers ?v1))
           = saved_snapshots (trace ?v1) @ replicate k (serializeHTML ?v1 (notesContainer ?v1))"
        "clock (runTimers ?v1) = clock ?v1" "notesContainer (runTimers ?v1) = notesContainer ?v1"
        "serializeHTML (runTimers ?v1) = serializeHTML ?v1"
        by auto
      have f: "clock ?v1 = clock v" "notesContainer ?v1 = notesContainer v"
        "serializeHTML ?v1 = serializeHTML v"
        "saved_snapshots (trace ?v1) = saved_snapshots (trace v) @ [serializeHTML v (notesContainer v)]"
        by (simp_all add: saveCallback_facts saveCallback_fixed)
      have "Suc (due_saves ?v1) = due_saves v"
        unfolding due_saves_def using filter_remove1_length[OF mem, of "\<lambda>t. snd (snd t) = SaveCallback \<and> fst (snd t) \<le> clock v"]
          SaveCallback due
        by (simp add: timers_saveCallback saveCallback_facts)
      then have "Suc k \<le> due_saves v" using k(1) by simp
      then show ?thesis unfolding step using SaveCallback k f
        by (intro exI[of _ "Suc k"]) (simp add: replicate_append_same)
    next
      case PasteCallback
      let ?v1 = "updateStorage ?v'"
      let ?P = "filter (\<lambda>t. snd (snd t) = PasteCallback) (timers ?v')"
      have ok1: "app_ok ?v1" using app_ok_updateStorage[OF ok'] .
      note u = updateStorage_app_ok[OF ok']
      have f: "clock ?v1 = clock v" "notesContainer ?v1 = notesContainer v"
        "serializeHTML ?v1 = serializeHTML v"
        "saved_snapshots (trace ?v1) = saved_snapshots (trace v)"
        using u(4) by (simp_all add: updateStorage_keeps)
      have pp: "(\<exists>t\<in>set (timers ?v1). snd (snd t) = PasteCallback) \<or> armed ?v1 (clock ?v1 + 300)"
      proof (cases "?P = []")
        case True
        then have "armed ?v1 (clock v + 300)" using u(1,2,3) by (simp add: armed_def)
        then show ?thesis using f(1) by simp
      next
        case False
        then obtain q qs where "?P = q # qs" by (meson neq_Nil_conv)
        then have "q \<in> set ?P" by (simp only: list.set_intros)
        then have "q \<in> set (timers ?v1)" "snd (snd q) = PasteCallback" using u(1) by auto
        then show ?thesis by blast
      qed
      have z: "due_saves ?v1 = 0"
        unfolding due_saves_def u(1) f(1) by (simp add: filter_empty_conv)
      from "1.IH"[OF Cons e[symmetric] refl] PasteCallback ok1 pp
      obtain k where k: "k \<le> due_saves ?v1" "armed (runTimers ?v1) (clock ?v1 + 300)"
        "saved_snapshots (trace (runTimers ?v1))
           = saved_snapshots (trace ?v1) @ replicate k (serializeHTML ?v1 (notesContainer ?v1))"
        "clock (runTimers ?v1) = clock ?v1" "notesContainer (runTimers ?v1) = notesContainer ?v1"
        "serializeHTML (runTimers ?v1) = serializeHTML ?v1"
        by auto
      have "k = 0" using k(1) z by simp
      then show ?thesis unfolding step using PasteCallback k f
        by (intro exI[of _ 0]) simp
    qed
  qed
qed

lemma earliest_le_first: "fst (snd (earliest t ts)) \<le> fst (snd t)"
proof (induction ts arbitrary: t)
  case Nil
  then show ?case by simp
next
  case (Cons u us)
  show ?case using Cons[of u] Cons[of t] by (cases "fst (snd u) < fst (snd t)") auto
qed

lemma earliest_le_rest: "u \<in> set ts \<Longrightarrow> fst (snd (earliest t ts)) \<le> fst (snd u)"
proof (induction ts arbitrary: t)
  case Nil
  then show ?case by simp
next
  case (Cons x xs)
  show ?case
  proof (cases "u = x")
    case True
    then show ?thesis using earliest_le_first[of x xs] earliest_le_first[of t xs]
      by (cases "fst (snd x) < fst (snd t)") auto
  next
    case False
    then have "u \<in> set xs" using Cons.prems by simp
    then show ?thesis using Cons.IH[of x] Cons.IH[of t] by simp
  qed
qed

lemma earliest_le: "u \<in> set (t # ts) \<Longrightarrow> fst (snd (earliest t ts)) \<le> fst (snd u)"
  using earliest_le_first[of t ts] earliest_le_rest[of u ts t] by auto

lemma run_append: "run (xs @ ys) w = run ys (run xs w)"
  by (simp add: run_def)

lemma run_Cons: "run (x # xs) w = run xs (exec x w)"
  by (simp add: run_def)

lemma run_Nil: "run [] w = w"
  by (simp add: run_def)

text \<open>A paste callback that runs on an available medium leaves the save timeout armed
  one delay ahead, and the host's timer run that follows takes no snapshot.\<close>

lemma updateStorage_then_run:
  assumes "app_ok v"
  shows "armed (runTimers (updateStorage v)) (clock v + 300)
       \<and> saved_snapshots (trace (runTimers (updateStorage v))) = saved_snapshots (trace v)
       \<and> clock (runTimers (updateStorage v)) = clock v
       \<and> notesContainer (runTimers (updateStorage v)) = notesContainer v
       \<and> serializeHTML (runTimers (updateStorage v)) = serializeHTML v"
proof -
  let ?v1 = "updateStorage v"
  let ?P = "filter (\<lambda>t. snd (snd t) = PasteCallback) (timers v)"
  have ok1: "app_ok ?v1" using app_ok_updateStorage[OF assms] .
  note u = updateStorage_app_ok[OF assms]
  have f: "clock ?v1 = clock v" "notesContainer ?v1 = notesContainer v"
    "serializeHTML ?v1 = serializeHTML v"
    "saved_snapshots (trace ?v1) = saved_snapshots (trace v)"
    using u(4) by (simp_all add: updateStorage_keeps)
  have pp: "(\<exists>t\<in>set (timers ?v1). snd (snd t) = PasteCallback) \<or> armed ?v1 (clock ?v1 + 300)"
  proof (cases "?P = []")
    case True
    then have "armed ?v1 (clock v + 300)" using u(1,2,3) by (simp add: armed_def)
    then show ?thesis using f(1) by simp
  next
    case False
    then obtain q qs where "?P = q # qs" by (meson neq_Nil_conv)
    then have "q \<in> set ?P" by (simp only: list.set_intros)
    then have "q \<in> set (timers ?v1)" "snd (snd q) = PasteCallback" using u(1) by auto
    then show ?thesis by blast
  qed
  have z: "due_saves ?v1 = 0"
    unfolding due_saves_def u(1) f(1) by (simp add: filter_empty_conv)
  from runTimers_after_paste[OF ok1 pp] z f show ?thesis by auto
qed

text \<open>If a due paste callback is due before every pending save timeout, it runs first.\<close>

lemma runTimers_paste_first:
  assumes ok: "app_ok v" and p: "p \<in> set (timers v)" "snd (snd p) = PasteCallback"
    and late: "\<forall>t\<in>set (timers v). snd (snd t) = SaveCallback \<longrightarrow> fst (snd p) < fst (snd t)"
  shows "armed (runTimers v) (clock v + 300)
       \<and> saved_snapshots (trace (runTimers v)) = saved_snapshots (trace v)
       \<and> clock (runTimers v) = clock v
       \<and> notesContainer (runTimers v) = notesContainer v
       \<and> serializeHTML (runTimers v) = serializeHTML v"
proof -
  have "fst (snd p) \<le> clock v"
    using ok p by (auto simp: app_ok_def handles_ok_def list_all_iff)
  then have pd: "p \<in> set (due_timers v)" using p(1) by (simp add: due_timers_def)
  then obtain t ts where c: "due_timers v = t # ts" by (cases "due_timers v") auto
  obtain i d cb where e: "earliest t ts = (i, d, cb)" by (cases "earliest t ts")
  let ?v' = "v\<lparr>timers := remove1 (i, d, cb) (timers v)\<rparr>"
  have "(i, d, cb) \<in> set (due_timers v)" using earliest_mem[of t ts] e c by simp
  then have mem: "(i, d, cb) \<in> set (timers v)" by (simp add: due_timers_def)
  have "d \<le> fst (snd p)" using earliest_le[of p t ts] pd c e by simp
  then have "cb \<noteq> SaveCallback" using late mem by fastforce
  then have cb: "cb = PasteCallback" by (cases cb) simp_all
  have step: "runTimers v = runTimers (updateStorage ?v')"
    using runTimers_step[OF c e] cb by simp
  from updateStorage_then_run[OF app_ok_remove1[OF ok, of "(i, d, cb)"]]
  show ?thesis unfolding step by simp
qed

text \<open>Input events delivered one after the other keep the clock, the tree, the
  snapshots taken and the pending paste callbacks; a save timeout pending afterwards
  was pending before or is due one delay from now.\<close>

lemma input_event_keeps:
  assumes "app_ok v"
  shows "app_ok (exec (Deliver (NotesInput q)) v)
       \<and> clock (exec (Deliver (NotesInput q)) v) = clock v
       \<and> notesContainer (exec (Deliver (NotesInput q)) v) = notesContainer v
       \<and> serializeHTML (exec (Deliver (NotesInput q)) v) = serializeHTML v
       \<and> saved_snapshots (trace (exec (Deliver (NotesInput q)) v)) = saved_snapshots (trace v)
       \<and> filter (\<lambda>t. snd (snd t) = PasteCallback) (timers (exec (Deliver (NotesInput q)) v))
           = filter (\<lambda>t. snd (snd t) = PasteCallback) (timers v)
       \<and> (\<forall>t\<in>set (timers (exec (Deliver (NotesInput q)) v)). snd (snd t) = SaveCallback \<longrightarrow>
             t \<in> set (timers v) \<or> fst (snd t) = clock v + 300)"
proof -
  have "exec (Deliver (NotesInput q)) v = v \<or> exec (Deliver (NotesInput q)) v = updateStorage v"
    by (simp add: handleNotesInput_def split: option.splits node.splits)
  then show ?thesis
  proof
    assume "exec (Deliver (NotesInput q)) v = v"
    then show ?thesis using assms by simp
  next
    assume u: "exec (Deliver (NotesInput q)) v = updateStorage v"
    show ?thesis unfolding u
      using app_ok_updateStorage[OF assms] updateStorage_app_ok[OF assms]
      by (simp add: updateStorage_keeps)
  qed
qed

lemma input_events_keep:
  assumes "app_ok v"
  shows "app_ok (run (map (\<lambda>q. Deliver (NotesInput q)) qs) v)
       \<and> clock (run (map (\<lambda>q. Deliver (NotesInput q)) qs) v) = clock v
       \<and> notesContainer (run (map (\<lambda>q. Deliver (NotesInput q)) qs) v) = notesContainer v
       \<and> serializeHTML (run (map (\<lambda>q. Deliver (NotesInput q)) qs) v) = serializeHTML v
       \<and> saved_snapshots (trace (run (map (\<lambda>q. Deliver (NotesInput q)) qs) v)) = saved_snapshots (trace v)
       \<and> filter (\<lambda>t. snd (snd t) = PasteCallback) (timers (run (map (\<lambda>q. Deliver (NotesInput q)) qs) v))
           = filter (\<lambda>t. snd (snd t) = PasteCallback) (timers v)
       \<and> (\<forall>t\<in>set (timers (run (map (\<lambda>q. Deliver (NotesInput q)) qs) v)). snd (snd t) = SaveCallback \<longrightarrow>
             t \<in> set (timers v) \<or> fst (snd t) = clock v + 300)"
  using assms
proof (induction qs arbitrary: v)
  case Nil
  then show ?case by (simp add: run_Nil)
next
  case (Cons q qs)
  let ?v1 = "exec (Deliver (NotesInput q)) v"
  note s = input_event_keeps[OF Cons.prems, of q]
  have ok1: "app_ok ?v1" using s by blast
  note ih = Cons.IH[OF ok1]
  have r: "run (map (\<lambda>q. Deliver (NotesInput q)) (q # qs)) v
             = run (map (\<lambda>q. Deliver (NotesInput q)) qs) ?v1"
    by (simp add: run_Cons)
  show ?case unfolding r using s ih by (auto simp del: exec.simps)
qed

subsection \<open>Clicks\<close>

text \<open>A click on a delete control that is a direct child of a top-level Item removes that
  Item and no other, suppresses the default action and requests a save; a click on an
  element that is not a delete control (the container included) changes nothing.\<close>

lemma click_on_item_control:
  assumes "node_at [i, j] (notesContainer w) = Some (Element ''IMG'' c a kids)"
    and "''delete-btn'' \<in> set c"
  shows "handleNotesClick [i, j] w =
           updateStorage ((emit PreventDefault w)
             \<lparr>notesContainer := take i (notesContainer w) @ drop (Suc i) (notesContainer w)\<rparr>)"
  using assms
  by (simp add: handleNotesClick_def target_node_def parentElement_def emit_def)

lemma click_elsewhere:
  assumes "target_node target w = Some (Element t c a kids)"
    and "\<not> (t = ''IMG'' \<and> ''delete-btn'' \<in> set c)"
  shows "handleNotesClick target w = w"
  using assms by (auto simp: handleNotesClick_def)

section \<open>Properties\<close>

text \<open>
  C1. Debounce coalescing. Take a state in which the probe's calls do not throw and
  nothing but the debounce timeout (if any) is pending, and a burst of
  \<open>length ds + 1\<close> calls of \<open>updateStorage\<close>, each less than
  \<open>debounceDelay\<close> (300 for every constructed application) after the one before.
  During the burst no \<open>setItem\<close> on the key \<open>notes\<close> happens; after each request
  exactly one timeout is pending, the newest, due one full delay after that request
  (so each request cancelled the timeout pending before it). However the host then
  schedules its timer runs, no save happens while less than the delay has passed since
  the last request, and once the host runs its timers with at least the delay passed,
  exactly one \<open>setItem\<close> on \<open>notes\<close> has been added, at a time at least one delay
  after the last request, and no timeout is left pending.
\<close>

theorem debounce_coalescing:
  assumes "medium_available w" and "only_debounce_pending w"
    and "\<forall>d\<in>set ds. d < debounceDelay w"
  shows "save_times (trace (burst ds w)) = save_times (trace w)
       \<and> timers (burst ds w) = [(lastTimerId (burst ds w), clock (burst ds w) + debounceDelay w, SaveCallback)]
       \<and> debounceTimer (burst ds w) = Some (lastTimerId (burst ds w))
       \<and> clock (burst ds w) = clock w + sum_list ds
       \<and> (if ws = [] \<or> sum_list ws < debounceDelay w
          then save_times (trace (idle ws (burst ds w))) = save_times (trace w)
          else \<exists>t. clock (burst ds w) + debounceDelay w \<le> t
                 \<and> save_times (trace (idle ws (burst ds w))) = save_times (trace w) @ [t]
                 \<and> timers (idle ws (burst ds w)) = [])"
proof -
  let ?b = "burst ds w"
  let ?T = "clock ?b + debounceDelay w"
  note inv = burst_inv[OF assms]
  have tm: "timers ?b = [(lastTimerId ?b, ?T, SaveCallback)]"
    and dt: "debounceTimer ?b = Some (lastTimerId ?b)"
    using inv by (simp_all add: armed_def)
  have quiet: "save_times (trace (idle ws ?b)) = save_times (trace w)"
    if "ws = [] \<or> sum_list ws < debounceDelay w"
  proof (cases "ws = []")
    case True
    then show ?thesis using inv by simp
  next
    case False
    then have "clock ?b + sum_list ws < ?T" using that by simp
    from idle_before[OF tm this] show ?thesis using inv by simp
  qed
  have fired: "\<exists>t. ?T \<le> t \<and> save_times (trace (idle ws ?b)) = save_times (trace w) @ [t]
                 \<and> timers (idle ws ?b) = []"
    if "\<not> (ws = [] \<or> sum_list ws < debounceDelay w)"
  proof -
    have "?T \<le> clock ?b + sum_list ws" "ws \<noteq> []" using that by simp_all
    from idle_after[OF tm this] show ?thesis using inv by auto
  qed
  show ?thesis using inv tm dt quiet fired by simp
qed

theorem debounce_coalescing_witness:
  "medium_available (NotesApp True (page [] (working Map.empty)))
   \<and> only_debounce_pending (NotesApp True (page [] (working Map.empty)))
   \<and> 100 < debounceDelay (NotesApp True (page [] (working Map.empty)))
   \<and> 299 < debounceDelay (NotesApp True (page [] (working Map.empty)))
   \<and> save_times (trace (burst [100, 299] (NotesApp True (page [] (working Map.empty))))) = []
   \<and> save_times (trace (idle [200, 99] (burst [100, 299] (NotesApp True (page [] (working Map.empty)))))) = []
   \<and> (\<exists>t. 699 \<le> t \<and>
        save_times (trace (idle [200, 100, 50] (burst [100, 299] (NotesApp True (page [] (working Map.empty)))))) = [t])"
proof -
  let ?A = "NotesApp True (page [] (working Map.empty))"
  have h: "medium_available ?A" "only_debounce_pending ?A" "\<forall>d\<in>set [100, 299]. d < debounceDelay ?A"
    by (simp_all add: app_facts)
  let ?B = "burst [100, 299] ?A"
  note q = debounce_coalescing[OF h, of "[200, 99]"]
  note f = debounce_coalescing[OF h, of "[200, 100, 50]"]
  have b: "save_times (trace ?B) = []" "clock ?B = 399"
    using q by (simp_all add: app_facts del: burst.simps idle.simps)
  have i1: "save_times (trace (idle [200, 99] ?B)) = []"
    using q by (simp add: app_facts del: burst.simps idle.simps)
  have "\<exists>t. clock ?B + 300 \<le> t \<and> save_times (trace (idle [200, 100, 50] ?B)) = [t]"
    using f by (auto simp add: app_facts simp del: burst.simps idle.simps)
  then have i2: "\<exists>t. 699 \<le> t \<and> save_times (trace (idle [200, 100, 50] ?B)) = [t]"
    using b(2) by simp
  have g: "100 < debounceDelay ?A" "299 < debounceDelay ?A" by (simp_all add: app_facts)
  show ?thesis using h(1,2) g b(1) i1 i2 by blast
qed

text \<open>
  C9. \<open>deleteNote\<close> called with an absent element (\<open>null\<close> or \<open>undefined\<close>)
  changes nothing at all: the document tree, the pending timers, the debounce handle,
  the medium and the trace of browser calls are what they were, so nothing was removed,
  no timer was set and no save was requested.
\<close>

theorem deleteNote_absent_noop: "deleteNote None w = w"
  by simp

text \<open>
  C2. Freshness. A save is requested on an available medium; before the timeout fires
  the document tree becomes \<open>tree\<close>, whatever it was when the save was requested.
  When the host then runs the due timeout, the snapshot handed to \<open>setItem\<close> on the
  key \<open>notes\<close> is the serialization of \<open>tree\<close>, the tree at fire time: the
  deferred callback reads the container itself, nothing was captured at request time.
  If that \<open>setItem\<close> does not throw, this is the value then stored.
\<close>

theorem save_reads_tree_at_fire_time:
  assumes "medium_available w" and "only_debounce_pending w" and "debounceDelay w \<le> d"
  shows "saved_snapshots (trace (runTimers ((wait d (updateStorage w))\<lparr>notesContainer := tree\<rparr>)))
           = saved_snapshots (trace w) @ [serializeHTML w tree]
       \<and> items (localStorage (runTimers ((wait d (updateStorage w))\<lparr>notesContainer := tree\<rparr>))) ''notes''
           = (case set_error (localStorage w) ''notes'' (serializeHTML w tree) of
                None \<Rightarrow> Some (serializeHTML w tree)
              | Some e \<Rightarrow> items (localStorage w) ''notes'')"
proof -
  let ?u = "updateStorage w"
  let ?v = "(wait d ?u)\<lparr>notesContainer := tree\<rparr>"
  note u = updateStorage_available[OF assms(1,2)]
  have tv: "timers ?v = [(lastTimerId ?u, clock w + debounceDelay w, SaveCallback)]"
    using u(1) by (simp add: armed_def)
  have "clock w + debounceDelay w \<le> clock ?v" using u(2) assms(3) by simp
  from runTimers_fire[OF tv this]
  have run: "runTimers ?v = saveCallback (?v\<lparr>timers := []\<rparr>)" .
  have snaps: "saved_snapshots (trace (runTimers ?v)) = saved_snapshots (trace w) @ [serializeHTML w tree]"
    unfolding run by (simp add: saveCallback_facts u)
  have stored: "items (localStorage (runTimers ?v)) ''notes''
           = (case set_error (localStorage w) ''notes'' (serializeHTML w tree) of
                None \<Rightarrow> Some (serializeHTML w tree)
              | Some e \<Rightarrow> items (localStorage w) ''notes'')"
    unfolding run
    by (simp add: saveCallback_def localStorage_setItem_def emit_def Let_def u updateStorage_medium
          split: option.splits)
  show ?thesis using snaps stored by simp
qed

theorem save_reads_tree_at_fire_time_witness:
  "medium_available (NotesApp True (page [] (working Map.empty)))
   \<and> only_debounce_pending (NotesApp True (page [] (working Map.empty)))
   \<and> debounceDelay (NotesApp True (page [] (working Map.empty))) \<le> 300
   \<and> saved_snapshots (trace (runTimers ((wait 300 (updateStorage (NotesApp True (page [] (working Map.empty)))))
        \<lparr>notesContainer := [Text ''typed later'']\<rparr>))) = [''typed later'']"
proof -
  let ?A = "NotesApp True (page [] (working Map.empty))"
  have h: "medium_available ?A" "only_debounce_pending ?A" "debounceDelay ?A \<le> 300"
    by (simp_all add: app_facts)
  have s: "saved_snapshots (trace ?A) = []" "serializeHTML ?A [Text ''typed later''] = ''typed later''"
    by (simp_all add: NotesApp_def init_def loadNotes_def attachEventListeners_def prims page_def
          working_def saved_snapshots_def Let_def)
  show ?thesis using h save_reads_tree_at_fire_time[OF h, of "[Text ''typed later'']"] s by simp
qed

text \<open>
  C3, as the claim states it, fails for \<open>loadNotes\<close>: the method does not consult
  the probe. On a medium whose \<open>setItem\<close> always throws (so the probe reports
  unavailable) but whose \<open>getItem\<close> works, \<open>loadNotes\<close> reads the key
  \<open>notes\<close> and restores the container from it.
\<close>

theorem load_not_gated_counterexample:
  "\<not> fst (isLocalStorageAvailable (page [] (rejecting ''QuotaExceededError'' [''notes'' \<mapsto> ''old''])))
   \<and> new_effects (page [] (rejecting ''QuotaExceededError'' [''notes'' \<mapsto> ''old'']))
        (loadNotes (page [] (rejecting ''QuotaExceededError'' [''notes'' \<mapsto> ''old''])))
      = [GetItem ''notes'', SetInnerHTML ''old'']
   \<and> notesContainer (loadNotes (page [] (rejecting ''QuotaExceededError'' [''notes'' \<mapsto> ''old''])))
      = [Text ''old'']"
  by (simp add: page_def rejecting_def loadNotes_def prims Let_def new_effects_def)

text \<open>
  C3, amended. When the probe reports the medium unavailable, \<open>updateStorage\<close> does
  nothing beyond the probe itself: it sets and clears no timeout, leaves
  \<open>debounceTimer\<close> alone and never gets or sets the key \<open>notes\<close> (its only calls
  on the medium are the probe's on the key \<open>test\<close>). \<open>loadNotes\<close> is not gated by
  the probe: in every state it reads the key \<open>notes\<close> exactly once, never writes to
  the medium, and catches a throwing read (logging it); it restores the container
  exactly when the read yields a non-empty string. Neither method throws: both are
  total functions on the state, every throwing call being inside a \<open>try\<close>.
\<close>

theorem availability_gating:
  assumes "\<not> fst (isLocalStorageAvailable w)"
  shows "updateStorage w = snd (isLocalStorageAvailable w)
       \<and> timers (updateStorage w) = timers w
       \<and> debounceTimer (updateStorage w) = debounceTimer w
       \<and> items (localStorage (updateStorage w)) ''notes'' = items (localStorage w) ''notes''
       \<and> (new_effects w (updateStorage w) = [SetItem ''test'' ''test'']
          \<or> new_effects w (updateStorage w) = [SetItem ''test'' ''test'', RemoveItem ''test''])
       \<and> localStorage (loadNotes w) = localStorage w
       \<and> timers (loadNotes w) = timers w
       \<and> new_effects w (loadNotes w) =
           GetItem ''notes'' #
           (case get_error (localStorage w) ''notes'' of
              Some e \<Rightarrow> [ConsoleError ''Error loading notes:'']
            | None \<Rightarrow>
                (case items (localStorage w) ''notes'' of
                   None \<Rightarrow> []
                 | Some s \<Rightarrow> if s \<noteq> [] then [SetInnerHTML s] else []))"
proof -
  have u: "updateStorage w = snd (isLocalStorageAvailable w)"
    using assms by (rule updateStorage_unavailable)
  have l: "localStorage (loadNotes w) = localStorage w" "timers (loadNotes w) = timers w"
    by (simp_all add: loadNotes_def localStorage_getItem_def emit_def Let_def split: option.splits)
  have n: "new_effects w (loadNotes w) =
           GetItem ''notes'' #
           (case get_error (localStorage w) ''notes'' of
              Some e \<Rightarrow> [ConsoleError ''Error loading notes:'']
            | None \<Rightarrow>
                (case items (localStorage w) ''notes'' of
                   None \<Rightarrow> []
                 | Some s \<Rightarrow> if s \<noteq> [] then [SetInnerHTML s] else []))"
    by (simp add: loadNotes_def localStorage_getItem_def emit_def Let_def new_effects_def
          split: option.splits)
  show ?thesis unfolding u using probe_facts[of w] l n by simp
qed

theorem availability_gating_witness:
  "\<not> fst (isLocalStorageAvailable (page [] (rejecting ''QuotaExceededError'' [''notes'' \<mapsto> ''old''])))
   \<and> timers (updateStorage (page [] (rejecting ''QuotaExceededError'' [''notes'' \<mapsto> ''old'']))) = []
   \<and> new_effects (page [] (rejecting ''QuotaExceededError'' [''notes'' \<mapsto> ''old'']))
        (updateStorage (page [] (rejecting ''QuotaExceededError'' [''notes'' \<mapsto> ''old''])))
      = [SetItem ''test'' ''test'']"
proof -
  let ?W = "page [] (rejecting ''QuotaExceededError'' [''notes'' \<mapsto> ''old''])"
  have h: "\<not> fst (isLocalStorageAvailable ?W)"
    by (simp add: page_def rejecting_def prims Let_def)
  have p: "snd (isLocalStorageAvailable ?W) = emit (SetItem ''test'' ''test'') ?W"
    by (simp add: page_def rejecting_def prims Let_def)
  have "updateStorage ?W = snd (isLocalStorageAvailable ?W)"
    using availability_gating[OF h] by blast
  then show ?thesis using h p by (simp add: new_effects_def emit_def page_def)
qed

text \<open>
  C4. Failure of the deferred save. The save timeout fires and \<open>setItem\<close> on
  \<open>notes\<close> throws the error \<open>e\<close>. If \<open>e\<close> is named
  \<open>QuotaExceededError\<close>, the browser calls made from then on, however long the host
  idles afterwards, are the failed \<open>setItem\<close>, one \<open>console.error\<close> and exactly
  one \<open>alert\<close>; for any other error they are the failed \<open>setItem\<close> and one
  \<open>console.error\<close>, and no \<open>alert\<close>. In both cases no timeout is left pending (no
  retry), the medium and the document tree are unchanged, and the callback returns
  normally to the host, which carries on.
\<close>

theorem save_failure_handling:
  assumes "timers w = [(i, T, SaveCallback)]" and "T \<le> clock w"
    and "set_error (localStorage w) ''notes'' (serializeHTML w (notesContainer w)) = Some e"
  shows "new_effects w (idle ws (runTimers w)) =
           (if error_name e = ''QuotaExceededError''
            then [SetItem ''notes'' (serializeHTML w (notesContainer w)),
                  ConsoleError ''Error saving notes:'',
                  Alert ''Storage quota exceeded. Please delete some notes.'']
            else [SetItem ''notes'' (serializeHTML w (notesContainer w)),
                  ConsoleError ''Error saving notes:''])
       \<and> timers (idle ws (runTimers w)) = []
       \<and> localStorage (idle ws (runTimers w)) = localStorage w
       \<and> notesContainer (idle ws (runTimers w)) = notesContainer w"
proof -
  let ?f = "saveCallback (w\<lparr>timers := []\<rparr>)"
  have run: "runTimers w = ?f" using runTimers_fire[OF assms(1,2)] .
  have tf: "timers ?f = []" by (simp add: timers_saveCallback)
  have idle: "idle ws (runTimers w) = ?f\<lparr>clock := clock ?f + sum_list ws\<rparr>"
    unfolding run using idle_no_timers[OF tf] .
  show ?thesis unfolding idle using assms(3)
    by (simp add: saveCallback_def localStorage_setItem_def emit_def Let_def new_effects_def)
qed

theorem save_failure_handling_witness:
  "new_effects ((page [Text ''a''] (rejecting ''QuotaExceededError'' Map.empty))\<lparr>timers := [(1, 300, SaveCallback)], clock := 300\<rparr>)
     (idle [1000] (runTimers ((page [Text ''a''] (rejecting ''QuotaExceededError'' Map.empty))\<lparr>timers := [(1, 300, SaveCallback)], clock := 300\<rparr>)))
   = [SetItem ''notes'' ''a'', ConsoleError ''Error saving notes:'',
      Alert ''Storage quota exceeded. Please delete some notes.'']
  \<and> new_effects ((page [Text ''a''] (rejecting ''SecurityError'' Map.empty))\<lparr>timers := [(1, 300, SaveCallback)], clock := 300\<rparr>)
     (idle [1000] (runTimers ((page [Text ''a''] (rejecting ''SecurityError'' Map.empty))\<lparr>timers := [(1, 300, SaveCallback)], clock := 300\<rparr>)))
   = [SetItem ''notes'' ''a'', ConsoleError ''Error saving notes:'']"
  using save_failure_handling[of "(page [Text ''a''] (rejecting ''QuotaExceededError'' Map.empty))\<lparr>timers := [(1, 300, SaveCallback)], clock := 300\<rparr>"
          1 300 "JsError ''QuotaExceededError''" "[1000]"]
        save_failure_handling[of "(page [Text ''a''] (rejecting ''SecurityError'' Map.empty))\<lparr>timers := [(1, 300, SaveCallback)], clock := 300\<rparr>"
          1 300 "JsError ''SecurityError''" "[1000]"]
  by (simp add: page_def rejecting_def del: idle.simps)

text \<open>
  C7, as the claim states it, fails for the empty snapshot: after a successful save of
  the empty string, \<open>loadNotes\<close> on the reloaded page reads the key and hands nothing
  to the container, whose content stays what the page had.
\<close>

theorem roundtrip_empty_counterexample:
  "set_error (localStorage (page [] (working Map.empty))) ''notes''
      (serializeHTML (page [] (working Map.empty)) (notesContainer (page [] (working Map.empty)))) = None
   \<and> items (localStorage (saveCallback (page [] (working Map.empty)))) ''notes'' = Some ''''
   \<and> new_effects (page [Text ''static''] (localStorage (saveCallback (page [] (working Map.empty)))))
        (loadNotes (page [Text ''static''] (localStorage (saveCallback (page [] (working Map.empty))))))
      = [GetItem ''notes'']
   \<and> notesContainer (loadNotes (page [Text ''static''] (localStorage (saveCallback (page [] (working Map.empty))))))
      = [Text ''static'']"
  by (simp add: page_def working_def saveCallback_def loadNotes_def prims Let_def new_effects_def)

text \<open>
  C7, amended. For every non-empty snapshot \<open>s\<close> (the serialization of the tree when
  the deferred save runs): if \<open>setItem\<close> does not throw, \<open>s\<close> is stored under
  \<open>notes\<close>; and in any later state \<open>v\<close> whose medium still holds that value under
  \<open>notes\<close> and whose \<open>getItem\<close> does not throw, \<open>loadNotes\<close> reads the key and
  assigns exactly \<open>s\<close> to the container's \<open>innerHTML\<close>.
\<close>

theorem snapshot_roundtrip:
  assumes "set_error (localStorage w) ''notes'' (serializeHTML w (notesContainer w)) = None"
    and "items (localStorage v) ''notes'' = items (localStorage (saveCallback w)) ''notes''"
    and "get_error (localStorage v) ''notes'' = None"
    and "serializeHTML w (notesContainer w) \<noteq> []"
  shows "items (localStorage (saveCallback w)) ''notes'' = Some (serializeHTML w (notesContainer w))
       \<and> new_effects v (loadNotes v) =
           [GetItem ''notes'', SetInnerHTML (serializeHTML w (notesContainer w))]
       \<and> notesContainer (loadNotes v) = parseHTML v (serializeHTML w (notesContainer w))"
proof -
  have s: "items (localStorage (saveCallback w)) ''notes'' = Some (serializeHTML w (notesContainer w))"
    using assms(1) by (simp add: saveCallback_def localStorage_setItem_def emit_def Let_def)
  then have "items (localStorage v) ''notes'' = Some (serializeHTML w (notesContainer w))"
    using assms(2) by simp
  then show ?thesis using s assms(3,4)
    by (simp add: loadNotes_def localStorage_getItem_def emit_def Let_def new_effects_def)
qed

theorem snapshot_roundtrip_witness:
  "notesContainer (loadNotes (page [] (localStorage (saveCallback (page [Text ''hello''] (working Map.empty))))))
     = [Text ''hello'']
   \<and> new_effects (page [] (localStorage (saveCallback (page [Text ''hello''] (working Map.empty)))))
        (loadNotes (page [] (localStorage (saveCallback (page [Text ''hello''] (working Map.empty))))))
     = [GetItem ''notes'', SetInnerHTML ''hello'']"
proof -
  let ?w = "page [Text ''hello''] (working Map.empty)"
  let ?v = "page [] (localStorage (saveCallback ?w))"
  have h: "set_error (localStorage ?w) ''notes'' (serializeHTML ?w (notesContainer ?w)) = None"
      "items (localStorage ?v) ''notes'' = items (localStorage (saveCallback ?w)) ''notes''"
      "get_error (localStorage ?v) ''notes'' = None"
      "serializeHTML ?w (notesContainer ?w) \<noteq> []"
    by (simp_all add: page_def working_def saveCallback_def prims Let_def)
  have e: "serializeHTML ?w (notesContainer ?w) = ''hello''" "parseHTML ?v ''hello'' = [Text ''hello'']"
    by (simp_all add: page_def)
  show ?thesis using snapshot_roundtrip[OF h] e by simp
qed

text \<open>
  C10. When the value stored under \<open>notes\<close> is the empty string, \<open>loadNotes\<close>
  leaves the container's content unchanged, and behaves exactly as it does when the
  key is unset: the resulting state is the one obtained from the same state with the
  key removed (the medium itself apart). A saved empty document is not restored.
\<close>

theorem loadNotes_empty_snapshot:
  assumes "items (localStorage w) ''notes'' = Some []"
  shows "notesContainer (loadNotes w) = notesContainer w
       \<and> loadNotes w =
           (loadNotes (w\<lparr>localStorage := (localStorage w)\<lparr>items := (items (localStorage w))(''notes'' := None)\<rparr>\<rparr>))
             \<lparr>localStorage := localStorage w\<rparr>"
  using assms by (simp add: loadNotes_def localStorage_getItem_def emit_def Let_def split: option.splits)

theorem loadNotes_empty_snapshot_witness:
  "items (localStorage (page [Text ''kept''] (working [''notes'' \<mapsto> '''']))) ''notes'' = Some []
   \<and> notesContainer (loadNotes (page [Text ''kept''] (working [''notes'' \<mapsto> '''']))) = [Text ''kept'']"
  using loadNotes_empty_snapshot[of "page [Text ''kept''] (working [''notes'' \<mapsto> ''''])", THEN conjunct1]
  by (simp add: page_def working_def)

text \<open>
  C5. \<open>createNote\<close> appends exactly one new Item to the tree (a \<open>P\<close> with class
  \<open>input-box\<close>, editable, with one \<open>IMG\<close> of class \<open>delete-btn\<close> as its only
  child), calls \<open>focus\<close> on it and then requests a save. Its identifier, however, is
  the reading of the clock and nothing else: a second \<open>createNote\<close> before the clock
  has moved appends an Item equal to the first, with the same \<open>data-note-id\<close>. The
  identifier is therefore not always distinct from those already present, although
  the code's comment on line 89 calls it unique.
\<close>

theorem createNote_identifier_collision:
  "createNote w =
     updateStorage (emit (Focus [length (notesContainer w)])
                      (w\<lparr>notesContainer := notesContainer w @ [inputBox (clock w)]\<rparr>))
   \<and> notesContainer (createNote w) = notesContainer w @ [inputBox (clock w)]
   \<and> notesContainer (createNote (createNote w))
       = notesContainer w @ [inputBox (clock w), inputBox (clock w)]
   \<and> map_of (attributes (inputBox (clock w))) ''data-note-id'' = Some (number_to_string (clock w))"
proof -
  have c: "createNote w =
     updateStorage (emit (Focus [length (notesContainer w)])
                      (w\<lparr>notesContainer := notesContainer w @ [inputBox (clock w)]\<rparr>))"
    by (simp add: createNote_def Let_def)
  have n: "notesContainer (createNote x) = notesContainer x @ [inputBox (clock x)]" for x
    by (simp add: createNote_def Let_def updateStorage_keeps emit_def)
  have k: "clock (createNote w) = clock w"
    by (simp add: createNote_def Let_def updateStorage_keeps emit_def)
  have a: "map_of (attributes (inputBox (clock w))) ''data-note-id'' = Some (number_to_string (clock w))"
    by (simp add: inputBox_def)
  show ?thesis using c n[of w] n[of "createNote w"] k a by simp
qed

text \<open>
  C6. A click on an \<open>IMG\<close> with class \<open>delete-btn\<close> suppresses the default action,
  removes \<open>target.parentElement\<close> and requests a save; any other click changes
  nothing (see the two facts on clicks above). The element removed is the enclosing
  Item only when the control is a direct child of it. Evaluated on a constructed
  application whose Item holds the control inside a \<open>B\<close>: the click removes the
  \<open>B\<close> with the control in it and the Item stays, now without any delete control.
  With the control directly below the container, the click takes the container itself
  out of the document and removes no Item. So the handler does not always remove the
  enclosing Item, although it hands the element to \<open>deleteNote(noteElement)\<close>
  as the note to delete.
\<close>

theorem click_nested_control_removes_wrapper:
  "listening (NotesApp True (page [Element ''P'' [''input-box''] [] [Element ''B'' [] [] [deleteImg]]] (working Map.empty)))
   \<and> node_at [0, 0, 0] (notesContainer
        (NotesApp True (page [Element ''P'' [''input-box''] [] [Element ''B'' [] [] [deleteImg]]] (working Map.empty))))
     = Some (Element ''IMG'' [''delete-btn''] [(''src'', ''images/delete.png''), (''alt'', ''Delete note'')] [])
   \<and> notesContainer (exec (Deliver (NotesClick [0, 0, 0]))
        (NotesApp True (page [Element ''P'' [''input-box''] [] [Element ''B'' [] [] [deleteImg]]] (working Map.empty))))
     = [Element ''P'' [''input-box''] [] []]
   \<and> notesContainer (exec (Deliver (NotesClick [0]))
        (NotesApp True (page [deleteImg] (working Map.empty)))) = [deleteImg]
   \<and> containerInDocument (exec (Deliver (NotesClick [0]))
        (NotesApp True (page [deleteImg] (working Map.empty)))) = False"
proof -
  have a: "NotesApp True (page content (working Map.empty)) =
             (emit (GetItem ''notes'')
                (snd (isLocalStorageAvailable
                   ((page content (working Map.empty))\<lparr>debounceTimer := None, debounceDelay := 300\<rparr>))))
               \<lparr>listening := True\<rparr>" for content
    by (simp add: NotesApp_def init_def loadNotes_def attachEventListeners_def prims page_def
          working_def Let_def)
  show ?thesis unfolding a
    by (simp add: handleNotesClick_def target_node_def parentElement_def deleteImg_def
          updateStorage_keeps probe_facts emit_def page_def)
qed

text \<open>
  C8. Take any state \<open>w\<close> the application reaches by a run from its constructor
  (elements found, medium available, no timeout pending beforehand); other paste
  callbacks and a save timeout may be pending in it. A paste event delivered to the
  listeners does one thing: it sets one zero-delay timeout for the callback that calls
  \<open>updateStorage\<close>; no \<open>preventDefault\<close>, no change of the tree, no save request
  by the listener itself. Then the default insertion turns the tree into \<open>tree\<close>,
  input events may follow, and the host runs its timers (any \<open>d\<close> later). After
  that the save timeout is armed a full delay ahead, as the only pending timeout;
  every snapshot taken since the paste event is the serialization of \<open>tree\<close>, the
  tree after the insertion; none at all has been taken if no save timeout was already
  overdue when the paste event arrived; and when the armed timeout fires, one more
  snapshot of \<open>tree\<close> is taken.
\<close>

theorem paste_deferred:
  assumes "timers b = []" and "medium_available b"
    and "w = run steps (NotesApp True b)"
    and "r = run ([Deliver (NotesPaste target), UserEdit tree]
                   @ map (\<lambda>q. Deliver (NotesInput q)) qs @ [Wait d, RunTimers]) w"
    and "300 \<le> e"
  shows "exec (Deliver (NotesPaste target)) w =
           (emit (SetTimeout (Suc (lastTimerId w)) PasteCallback 0) w)
             \<lparr>timers := timers w @ [(Suc (lastTimerId w), clock w, PasteCallback)],
              lastTimerId := Suc (lastTimerId w)\<rparr>
       \<and> armed r (clock w + d + 300)
       \<and> (\<exists>k. saved_snapshots (trace r)
                  = saved_snapshots (trace w) @ replicate k (serializeHTML w tree)
              \<and> saved_snapshots (trace (run [Wait e, RunTimers] r))
                  = saved_snapshots (trace w) @ replicate (Suc k) (serializeHTML w tree)
              \<and> (list_all (\<lambda>t. snd (snd t) = SaveCallback \<longrightarrow> clock w < fst (snd t)) (timers w)
                    \<longrightarrow> k = 0))"
proof -
  let ?p = "(Suc (lastTimerId w), clock w, PasteCallback)"
  let ?h = "exec (Deliver (NotesPaste target)) w"
  let ?v0 = "?h\<lparr>notesContainer := tree\<rparr>"
  let ?v1 = "run (map (\<lambda>q. Deliver (NotesInput q)) qs) ?v0"
  let ?v2 = "wait d ?v1"
  let ?X = "serializeHTML w tree"
  have ok: "app_ok w"
    unfolding assms(3) using app_ok_run[OF app_ok_NotesApp[OF assms(1,2)]] .
  then have lis: "listening w" by (simp add: app_ok_def)
  have h: "?h = (emit (SetTimeout (Suc (lastTimerId w)) PasteCallback 0) w)
             \<lparr>timers := timers w @ [?p], lastTimerId := Suc (lastTimerId w)\<rparr>"
    using lis by (simp add: handleNotesPaste_def setTimeout_def Let_def)
  have okh: "app_ok ?h" using app_ok_exec[OF ok] .
  have ok0: "app_ok ?v0" using app_ok_tree[OF okh] .
  have f0: "clock ?v0 = clock w" "notesContainer ?v0 = tree" "serializeHTML ?v0 = serializeHTML w"
    "saved_snapshots (trace ?v0) = saved_snapshots (trace w)" "timers ?v0 = timers w @ [?p]"
    unfolding h by (simp_all add: emit_def saved_snapshots_def)
  note i = input_events_keep[OF ok0, of qs]
  have ok2: "app_ok ?v2" using app_ok_wait i by blast
  have f2: "clock ?v2 = clock w + d" "notesContainer ?v2 = tree" "serializeHTML ?v2 = serializeHTML w"
    "saved_snapshots (trace ?v2) = saved_snapshots (trace w)"
    using i f0 by simp_all
  have "?p \<in> set (filter (\<lambda>t. snd (snd t) = PasteCallback) (timers ?v0))" using f0(5) by simp
  then have "?p \<in> set (filter (\<lambda>t. snd (snd t) = PasteCallback) (timers ?v1))" using i by simp
  then have p2: "?p \<in> set (timers ?v2)" by simp
  have r: "r = runTimers ?v2"
    unfolding assms(4) by (simp add: run_append run_Cons run_Nil del: dispatch.simps)
  have pp: "(\<exists>t\<in>set (timers ?v2). snd (snd t) = PasteCallback) \<or> armed ?v2 (clock ?v2 + 300)"
    using p2 by force
  from runTimers_after_paste[OF ok2 pp]
  obtain k where k: "armed r (clock w + d + 300)"
    "saved_snapshots (trace r) = saved_snapshots (trace w) @ replicate k ?X"
    "clock r = clock w + d" "notesContainer r = tree" "serializeHTML r = serializeHTML w"
    unfolding r using f2 by auto
  have fire: "saved_snapshots (trace (run [Wait e, RunTimers] r)) = saved_snapshots (trace r) @ [?X]"
    using armed_fire[OF k(1), of e] k(3,4,5) assms(5) by (simp add: run_Cons run_Nil)
  show ?thesis
  proof (cases "list_all (\<lambda>t. snd (snd t) = SaveCallback \<longrightarrow> clock w < fst (snd t)) (timers w)")
    case False
    then show ?thesis using h k(1,2) fire
      by (intro conjI exI[of _ k]) (simp_all add: replicate_append_same del: exec.simps)
  next
    case True
    have late: "\<forall>t\<in>set (timers ?v2). snd (snd t) = SaveCallback \<longrightarrow> fst (snd ?p) < fst (snd t)"
    proof (intro ballI impI)
      fix t assume t: "t \<in> set (timers ?v2)" "snd (snd t) = SaveCallback"
      then have "t \<in> set (timers ?v0) \<or> fst (snd t) = clock ?v0 + 300" using i by simp
      then show "fst (snd ?p) < fst (snd t)"
        using True t(2) f0(1,5) by (auto simp: list_all_iff)
    qed
    from runTimers_paste_first[OF ok2 p2 _ late]
    have z: "saved_snapshots (trace r) = saved_snapshots (trace w)"
      unfolding r using f2 by simp
    show ?thesis using h k(1) z fire
      by (intro conjI exI[of _ 0]) (simp_all del: exec.simps)
  qed
qed


theorem paste_deferred_witness:
  "timers (page [] (working Map.empty)) = []
   \<and> medium_available (page [] (working Map.empty))
   \<and> armed (run [Deliver (NotesPaste [0]), UserEdit [Element ''P'' [''input-box''] [] [Text ''pasted'']],
                  Deliver (NotesInput [0]), Wait 1, RunTimers]
              (run [Deliver CreateClick, Deliver (NotesPaste [0])]
                 (NotesApp True (page [] (working Map.empty))))) 301
   \<and> saved_snapshots (trace
        (run [Deliver (NotesPaste [0]), UserEdit [Element ''P'' [''input-box''] [] [Text ''pasted'']],
              Deliver (NotesInput [0]), Wait 1, RunTimers]
          (run [Deliver CreateClick, Deliver (NotesPaste [0])]
             (NotesApp True (page [] (working Map.empty)))))) = []
   \<and> saved_snapshots (trace (run [Wait 300, RunTimers]
        (run [Deliver (NotesPaste [0]), UserEdit [Element ''P'' [''input-box''] [] [Text ''pasted'']],
              Deliver (NotesInput [0]), Wait 1, RunTimers]
          (run [Deliver CreateClick, Deliver (NotesPaste [0])]
             (NotesApp True (page [] (working Map.empty))))))) = [''<P>pasted</P>'']"
proof -
  let ?B = "page [] (working Map.empty)"
  let ?W = "run [Deliver CreateClick, Deliver (NotesPaste [0])] (NotesApp True ?B)"
  let ?T = "[Element ''P'' [''input-box''] [] [Text ''pasted'']]"
  let ?R = "run ([Deliver (NotesPaste [0]), UserEdit ?T]
                   @ map (\<lambda>q. Deliver (NotesInput q)) [[0]] @ [Wait 1, RunTimers]) ?W"
  have b: "timers ?B = []" "medium_available ?B"
    by (simp_all add: page_def working_def medium_available_def)
  have a: "NotesApp True ?B =
             (emit (GetItem ''notes'') (snd (isLocalStorageAvailable (?B\<lparr>debounceTimer := None, debounceDelay := 300\<rparr>))))
               \<lparr>listening := True\<rparr>"
    by (simp add: NotesApp_def init_def loadNotes_def attachEventListeners_def prims page_def
          working_def Let_def)
  have w: "clock ?W = 0" "saved_snapshots (trace ?W) = []"
    "serializeHTML ?W ?T = ''<P>pasted</P>''"
    "timers ?W = [(1, 300, SaveCallback), (2, 0, PasteCallback)]"
    unfolding a
    by (simp_all add: run_def createNote_def updateStorage_def handleNotesPaste_def prims
          page_def working_def saved_snapshots_def Let_def)
  have l: "list_all (\<lambda>t. snd (snd t) = SaveCallback \<longrightarrow> clock ?W < fst (snd t)) (timers ?W)"
    unfolding w(1,4) by simp
  note p = paste_deferred[OF b refl refl, where e = 300 and target = "[0]" and tree = ?T
              and qs = "[[0]]" and d = 1 and steps = "[Deliver CreateClick, Deliver (NotesPaste [0])]"]
  have ar: "armed ?R 301" using p w(1) by simp
  from p l obtain k where k: "saved_snapshots (trace ?R) = saved_snapshots (trace ?W) @ replicate k (serializeHTML ?W ?T)"
    "saved_snapshots (trace (run [Wait 300, RunTimers] ?R))
       = saved_snapshots (trace ?W) @ replicate (Suc k) (serializeHTML ?W ?T)" "k = 0"
    by blast
  have s: "saved_snapshots (trace ?R) = []"
    "saved_snapshots (trace (run [Wait 300, RunTimers] ?R)) = [''<P>pasted</P>'']"
    using k w(2,3) by simp_all
  show ?thesis using b ar s by simp
qed

end
